theory Spec2Isabelle
  imports Complex_Main "HOL-Library.AList"
begin

section \<open>Least-squares Monte Carlo pricing (LSMC_with_TensorFlow.ipynb)\<close>

text \<open>
  The notebook prices a Bermudan put by the Longstaff-Schwartz method. Its code cells are
  embedded function by function. Tensor entries that the program computes from finite
  inputs without a division (asset prices, cashflows, values, payoffs) are exact reals: the
  rounding and overflow of float32 are not modelled. Division is the one operation of the
  program that leaves the finite numbers, so a quotient and everything computed from it
  (the scaled cross-section, the basis, the continuation values, the price) is a
  \<open>tfloat\<close>: a real, an infinity or NaN, with the IEEE-754 rules for the special values.
  The times that key the program's dicts are Python floats; their arithmetic is embedded
  with its rounding to the nearest double, because a lookup succeeds only when two
  computations of a time give the same double.
\<close>

subsection \<open>Exceptions\<close>

text \<open>
  \<open>ZeroDivisionError\<close>, \<open>KeyError\<close> and \<open>ValueError\<close> are the Python exceptions the cells can
  raise. \<open>InvalidParameter\<close> and \<open>DegenerateInput\<close> are the error kinds of the specification;
  no statement of the notebook raises them.
\<close>

datatype error = ZeroDivisionError | KeyError | ValueError | InvalidParameter | DegenerateInput

subsection \<open>Tensor entries with the IEEE special values\<close>

datatype tfloat = Fin real | PosInf | NegInf | NaN

text \<open>The infinity with the sign of \<open>s\<close>; NaN when \<open>s\<close> is zero (\<open>0 * inf\<close>, \<open>0 / 0\<close>).\<close>

definition signed_inf :: "real \<Rightarrow> tfloat" where
  "signed_inf s = (if s = 0 then NaN else if 0 < s then PosInf else NegInf)"

fun tneg :: "tfloat \<Rightarrow> tfloat" where
  "tneg (Fin a) = Fin (- a)"
| "tneg PosInf = NegInf"
| "tneg NegInf = PosInf"
| "tneg NaN = NaN"

fun tadd :: "tfloat \<Rightarrow> tfloat \<Rightarrow> tfloat" where
  "tadd (Fin a) (Fin b) = Fin (a + b)"
| "tadd NaN _ = NaN"
| "tadd _ NaN = NaN"
| "tadd PosInf NegInf = NaN"
| "tadd NegInf PosInf = NaN"
| "tadd PosInf _ = PosInf"
| "tadd _ PosInf = PosInf"
| "tadd NegInf _ = NegInf"
| "tadd _ NegInf = NegInf"

definition tsub :: "tfloat \<Rightarrow> tfloat \<Rightarrow> tfloat" where
  "tsub a b = tadd a (tneg b)"

fun tmul :: "tfloat \<Rightarrow> tfloat \<Rightarrow> tfloat" where
  "tmul (Fin a) (Fin b) = Fin (a * b)"
| "tmul NaN _ = NaN"
| "tmul _ NaN = NaN"
| "tmul (Fin a) PosInf = signed_inf a"
| "tmul (Fin a) NegInf = signed_inf (- a)"
| "tmul PosInf (Fin b) = signed_inf b"
| "tmul NegInf (Fin b) = signed_inf (- b)"
| "tmul PosInf PosInf = PosInf"
| "tmul NegInf NegInf = PosInf"
| "tmul PosInf NegInf = NegInf"
| "tmul NegInf PosInf = NegInf"

text \<open>
  Float division does not raise in TensorFlow: a nonzero number over zero is an infinity,
  zero over zero is NaN. A zero denominator is taken as \<open>+0\<close> (the difference of two equal
  floats).
\<close>

fun tdiv :: "tfloat \<Rightarrow> tfloat \<Rightarrow> tfloat" where
  "tdiv (Fin a) (Fin b) = (if b = 0 then signed_inf a else Fin (a / b))"
| "tdiv NaN _ = NaN"
| "tdiv _ NaN = NaN"
| "tdiv (Fin a) PosInf = Fin 0"
| "tdiv (Fin a) NegInf = Fin 0"
| "tdiv PosInf (Fin b) = (if 0 \<le> b then PosInf else NegInf)"
| "tdiv NegInf (Fin b) = (if 0 \<le> b then NegInf else PosInf)"
| "tdiv PosInf PosInf = NaN"
| "tdiv PosInf NegInf = NaN"
| "tdiv NegInf PosInf = NaN"
| "tdiv NegInf NegInf = NaN"

text \<open>\<open>a > b\<close> on tensor entries: every comparison with NaN is false.\<close>

fun tgreater :: "tfloat \<Rightarrow> tfloat \<Rightarrow> bool" where
  "tgreater (Fin a) (Fin b) = (b < a)"
| "tgreater NaN _ = False"
| "tgreater _ NaN = False"
| "tgreater PosInf PosInf = False"
| "tgreater PosInf _ = True"
| "tgreater NegInf _ = False"
| "tgreater (Fin a) PosInf = False"
| "tgreater (Fin a) NegInf = True"

subsection \<open>scale\<close>

text \<open>
  \<^verbatim>\<open>
  def scale(x):
      xmin = tf.reduce_min(x)
      xmax = tf.reduce_max(x)
      a = 2 / (xmax - xmin)
      b = 1 - a * xmax
      return a * x + b
  \<close>
  The argument is a cross-section of asset prices, a vector of reals. The reductions of
  an empty vector are the identities of \<open>min\<close> and \<open>max\<close>.
\<close>

fun reduce_min :: "real list \<Rightarrow> tfloat" where
  "reduce_min [] = PosInf"
| "reduce_min (v # vs) = Fin (fold min vs v)"

fun reduce_max :: "real list \<Rightarrow> tfloat" where
  "reduce_max [] = NegInf"
| "reduce_max (v # vs) = Fin (fold max vs v)"

definition scale :: "real list \<Rightarrow> tfloat list" where
  "scale x =
     (let xmin = reduce_min x;
          xmax = reduce_max x;
          a = tdiv (Fin 2) (tsub xmax xmin);
          b = tsub (Fin 1) (tmul a xmax)
      in map (\<lambda>v. tadd (tmul a (Fin v)) b) x)"

subsection \<open>Dictionaries and exceptions as values\<close>

text \<open>
  A Python dict is an association list in insertion order: \<open>d[k] = v\<close> replaces the value of
  an existing key in place and appends a new key, \<open>d[k]\<close> raises KeyError on a missing key,
  \<open>list(d.values())\<close> lists the values in insertion order.
\<close>

definition dict_get :: "('k \<times> 'v) list \<Rightarrow> 'k \<Rightarrow> error + 'v" where
  "dict_get d k = (case map_of d k of None \<Rightarrow> Inl KeyError | Some v \<Rightarrow> Inr v)"

definition dict_set :: "('k \<times> 'v) list \<Rightarrow> 'k \<Rightarrow> 'v \<Rightarrow> ('k \<times> 'v) list" where
  "dict_set d k v = AList.update k v d"

definition dict_values :: "('k \<times> 'v) list \<Rightarrow> 'v list" where
  "dict_values d = map snd d"

text \<open>A statement that raises ends the cell: the exception is the result.\<close>

definition ebind :: "error + 'a \<Rightarrow> ('a \<Rightarrow> error + 'b) \<Rightarrow> error + 'b" where
  "ebind x f = (case x of Inl e \<Rightarrow> Inl e | Inr v \<Rightarrow> f v)"

text \<open>\<open>{t: f(t) for t in ts}\<close>: the values are computed and stored in the order of \<open>ts\<close>.\<close>

fun comprehension_loop ::
  "('k \<Rightarrow> error + 'v) \<Rightarrow> 'k list \<Rightarrow> ('k \<times> 'v) list \<Rightarrow> error + ('k \<times> 'v) list" where
  "comprehension_loop f [] d = Inr d"
| "comprehension_loop f (t # ts) d =
     (case f t of Inl e \<Rightarrow> Inl e | Inr v \<Rightarrow> comprehension_loop f ts (dict_set d t v))"

definition dict_comprehension :: "('k \<Rightarrow> error + 'v) \<Rightarrow> 'k list \<Rightarrow> error + ('k \<times> 'v) list" where
  "dict_comprehension f ts = comprehension_loop f ts []"

subsection \<open>Vectors and matrices\<close>

text \<open>
  A vector is a list, a matrix the list of its rows. \<open>tf.stack(vs, axis=1)\<close> makes the
  vectors of \<open>vs\<close> (all of one length) the columns of a matrix.
\<close>

definition stack_axis1 :: "'a list list \<Rightarrow> 'a list list" where
  "stack_axis1 vs = transpose vs"

definition ones_like :: "tfloat list \<Rightarrow> tfloat list" where
  "ones_like x = replicate (length x) (Fin 1)"

definition smul :: "tfloat \<Rightarrow> tfloat list \<Rightarrow> tfloat list" where
  "smul c x = map (tmul c) x"

definition vmul :: "tfloat list \<Rightarrow> tfloat list \<Rightarrow> tfloat list" where
  "vmul x y = map2 tmul x y"

definition vsub :: "tfloat list \<Rightarrow> tfloat list \<Rightarrow> tfloat list" where
  "vsub x y = map2 tsub x y"

text \<open>\<open>tf.where(c, a, b)\<close> on vectors of one length.\<close>

definition tf_where :: "bool list \<Rightarrow> 'a list \<Rightarrow> 'a list \<Rightarrow> 'a list" where
  "tf_where c a b = map (\<lambda>(ci, ai, bi). if ci then ai else bi) (zip c (zip a b))"

subsection \<open>chebyshev\_basis\<close>

text \<open>
  \<^verbatim>\<open>
  def chebyshev_basis(x, k):
      B = {}
      B[0] = tf.ones_like(x)
      B[1] = x
      for n in range(2, k):
          B[n] = 2 * x * B[n - 1] - B[n - 2]
      return tf.stack(list(B.values()), axis=1)
  \<close>
\<close>

fun chebyshev_loop ::
  "tfloat list \<Rightarrow> nat list \<Rightarrow> (nat \<times> tfloat list) list \<Rightarrow> error + (nat \<times> tfloat list) list" where
  "chebyshev_loop x [] B = Inr B"
| "chebyshev_loop x (n # ns) B =
     (case dict_get B (n - 1) of Inl e \<Rightarrow> Inl e | Inr b1 \<Rightarrow>
      (case dict_get B (n - 2) of Inl e \<Rightarrow> Inl e | Inr b2 \<Rightarrow>
         chebyshev_loop x ns (dict_set B n (vsub (vmul (smul (Fin 2) x) b1) b2))))"

definition chebyshev_basis :: "tfloat list \<Rightarrow> nat \<Rightarrow> error + tfloat list list" where
  "chebyshev_basis x k =
     (let B = [];
          B = dict_set B 0 (ones_like x);
          B = dict_set B 1 x
      in ebind (chebyshev_loop x [2..<k] B) (\<lambda>B. Inr (stack_axis1 (dict_values B))))"

text \<open>
  The Chebyshev polynomials of the first kind, as the specification defines them:
  \<open>T\<^sub>0(x) = 1\<close>, \<open>T\<^sub>1(x) = x\<close>, \<open>T\<^sub>k(x) = 2x T\<^bsub>k-1\<^esub>(x) - T\<^bsub>k-2\<^esub>(x)\<close>.
\<close>

fun cheb_T :: "nat \<Rightarrow> real \<Rightarrow> real" where
  "cheb_T 0 x = 1"
| "cheb_T (Suc 0) x = x"
| "cheb_T (Suc (Suc k)) x = 2 * x * cheb_T (Suc k) x - cheb_T k x"

subsection \<open>ridge\_regression\<close>

text \<open>
  \<^verbatim>\<open>
  def ridge_regression(X, Y, \<lambda>=100):
      \<beta> = tf.linalg.lstsq(X, tf.reshape(Y, [-1, 1]), l2_regularizer=100)
      return tf.squeeze(X @ \<beta>)
  \<close>
  \<open>tf.linalg.lstsq\<close> is an operation of the TensorFlow library and a parameter of the
  model: any function from the design matrix, the right-hand side and the regulariser to
  the coefficients. The right-hand side is the single column \<open>Y\<close> and the result the single
  column \<open>\<beta>\<close>, so both are vectors here and \<open>tf.squeeze(X @ \<beta>)\<close> is the matrix-vector
  product.
\<close>

type_synonym lstsq_op = "tfloat list list \<Rightarrow> real list \<Rightarrow> real \<Rightarrow> tfloat list"

definition dot :: "tfloat list \<Rightarrow> tfloat list \<Rightarrow> tfloat" where
  "dot u v = foldl tadd (Fin 0) (map2 tmul u v)"

definition matvec :: "tfloat list list \<Rightarrow> tfloat list \<Rightarrow> tfloat list" where
  "matvec X b = map (\<lambda>row. dot row b) X"

definition ridge_regression :: "lstsq_op \<Rightarrow> tfloat list list \<Rightarrow> real list \<Rightarrow> real \<Rightarrow> tfloat list" where
  "ridge_regression lstsq X Y lam = (let beta = lstsq X Y 100 in matvec X beta)"

text \<open>
  The objective of the specification, \<open>\<parallel>Xz - Y\<parallel>\<^sup>2 + \<lambda>\<parallel>z\<parallel>\<^sup>2\<close>, for a finite design matrix.
\<close>

definition ridge_objective :: "real list list \<Rightarrow> real list \<Rightarrow> real \<Rightarrow> real list \<Rightarrow> real" where
  "ridge_objective X Y lam z =
     (\<Sum>(row, y)\<leftarrow>zip X Y. (sum_list (map2 (*) row z) - y)\<^sup>2) + lam * (\<Sum>v\<leftarrow>z. v\<^sup>2)"

subsection \<open>first\_one\<close>

text \<open>
  \<^verbatim>\<open>
  def first_one(x):
      original = x
      x = tf.cast(x > 0, x.dtype)
      n_columns = x.shape.as_list()[1]
      batch_size = x.shape.as_list()[0]
      x_not = 1 - x
      sum_x = tf.minimum(tf.cumprod(x_not, axis=1), 1.)
      ones = tf.ones([batch_size, 1])
      lag = sum_x[:, :(n_columns - 1)]
      lag = tf.concat([ones, lag], axis=1)
      return original * (lag * x)
  \<close>
  The payoff matrix has finite entries. \<open>n_columns\<close> is the length of the rows of the
  matrix; for \<open>n_columns = 0\<close> the slice \<open>[:, :-1]\<close> of a matrix without columns is empty,
  as \<open>take 0\<close> is.
\<close>

fun cumprod_from :: "real \<Rightarrow> real list \<Rightarrow> real list" where
  "cumprod_from acc [] = []"
| "cumprod_from acc (v # vs) = (acc * v) # cumprod_from (acc * v) vs"

definition cumprod :: "real list \<Rightarrow> real list" where
  "cumprod xs = cumprod_from 1 xs"

definition n_columns_of :: "'a list list \<Rightarrow> nat" where
  "n_columns_of x = (case x of [] \<Rightarrow> 0 | row # _ \<Rightarrow> length row)"

definition first_one :: "real list list \<Rightarrow> real list list" where
  "first_one x0 =
     (let original = x0;
          x = map (map (\<lambda>v. if 0 < v then 1 else 0)) x0;
          n_columns = n_columns_of x;
          batch_size = length x;
          x_not = map (map (\<lambda>v. 1 - v)) x;
          sum_x = map (\<lambda>row. map (\<lambda>v. min v 1) (cumprod row)) x_not;
          ones = replicate batch_size [1];
          lag = map (take (n_columns - 1)) sum_x;
          lag = map2 (@) ones lag
      in map2 (map2 (*)) original (map2 (map2 (*)) lag x))"

text \<open>
  The row the specification describes: the first strictly positive entry is kept at its
  value, every other entry is zero.
\<close>

definition first_positive_only :: "real list \<Rightarrow> real list" where
  "first_positive_only row =
     map (\<lambda>j. if 0 < row ! j \<and> list_all (\<lambda>v. \<not> 0 < v) (take j row) then row ! j else 0)
       [0..<length row]"

subsection \<open>advance\<close>

text \<open>
  \<^verbatim>\<open>
  def advance(S):
      dB = np.sqrt(\<Delta>t) * tf.random_normal(shape=[n])
      out = S + r * S * \<Delta>t + \<sigma> * S * dB
      return out
  \<close>
  The globals \<open>r\<close>, \<open>\<sigma>\<close>, \<open>\<Delta>t\<close> and \<open>n\<close> are arguments; \<open>normal j\<close> is the standard normal
  draw of path \<open>j\<close> in this call.
\<close>

definition advance :: "real \<Rightarrow> real \<Rightarrow> real \<Rightarrow> nat \<Rightarrow> (nat \<Rightarrow> real) \<Rightarrow> real list \<Rightarrow> real list" where
  "advance r sigma dt n normal S =
     (let dB = map (\<lambda>j. sqrt dt * normal j) [0..<n];
          out = map2 (\<lambda>s db. s + r * s * dt + sigma * s * db) S dB
      in out)"


subsection \<open>Times: float64 arithmetic and rounded keys\<close>

text \<open>
  The times of the pricing cell (\<open>\<Delta>t\<close>, the elements of \<open>t_span\<close>, \<open>t - \<Delta>t\<close>, \<open>t + \<Delta>t\<close>) are
  Python floats and numpy float64 numbers, and the dicts are keyed by them: by the float
  \<open>0.\<close>, by the maturity \<open>T\<close> and by the values of \<open>np.round(x, 6)\<close>. A time is the real
  number the float stands for, so two keys are one key exactly when they are the same
  number. Every operation on floats returns the double nearest to the exact result, a tie
  going to the even significand: \<open>binary64 x\<close> is that double (a significand of 53 bits;
  overflow and the subnormal range are not modelled). \<open>np.rint\<close> rounds to the nearest
  integer, a tie to the even one, and \<open>np.round(x, d)\<close> is \<open>np.rint(x * 10**d) / 10**d\<close> in
  float arithmetic.
\<close>

definition rint :: "real \<Rightarrow> int" where
  "rint y =
     (let f = \<lfloor>y\<rfloor>;
          d = y - of_int f
      in if d < 1 / 2 then f else if 1 / 2 < d then f + 1 else if even f then f else f + 1)"

definition binary64 :: "real \<Rightarrow> real" where
  "binary64 x =
     (if x = 0 then 0
      else let ulp = 2 powr of_int (\<lfloor>log 2 \<bar>x\<bar>\<rfloor> - 52)
           in of_int (rint (x / ulp)) * ulp)"

definition np_round :: "real \<Rightarrow> nat \<Rightarrow> real" where
  "np_round x d = binary64 (of_int (rint (binary64 (x * 10 ^ d))) / 10 ^ d)"

text \<open>
  \<open>np.arange(start, stop, step)\<close> has \<open>ceil((stop - start) / step)\<close> elements, none when that
  number is not positive; the division is Python's and raises for \<open>step = 0\<close>. The first
  element is \<open>start\<close>, the second \<open>next = start + step\<close>, and element \<open>i \<ge> 2\<close> is
  \<open>start + i * delta\<close> with \<open>delta = next - start\<close>, all in float arithmetic.
\<close>

definition arange :: "real \<Rightarrow> real \<Rightarrow> real \<Rightarrow> error + real list" where
  "arange start stop step =
     (if step = 0 then Inl ZeroDivisionError
      else let length = nat \<lceil>binary64 (binary64 (stop - start) / step)\<rceil>;
               next = binary64 (start + step);
               delta = binary64 (next - start)
           in Inr (map (\<lambda>i. if i = 0 then start else if i = 1 then next
                               else binary64 (start + binary64 (real i * delta)))
                     [0..<length]))"

subsection \<open>The pricing cell\<close>

text \<open>
  The parameters of the first cell: \<open>Spot\<close>, \<open>\<sigma>\<close>, \<open>K\<close>, \<open>r\<close>, \<open>T\<close>, \<open>order\<close>, \<open>n\<close> and \<open>m\<close>.
\<close>

record parameters =
  p_Spot :: real
  p_sigma :: real
  p_K :: real
  p_r :: real
  p_T :: real
  p_order :: nat
  p_n :: nat
  p_m :: nat

text \<open>
  \<^verbatim>\<open>
  for t in t_span:
      t_previous = np.round(t - \<Delta>t, 6)
      S[t] = advance(S[t_previous])
  \<close>
  Every call of \<open>advance\<close> draws fresh normals: \<open>Z i j\<close> is the draw of path \<open>j\<close> in the
  \<open>i\<close>-th call, and the loop carries the number \<open>i\<close> of the call it is about to make.
\<close>

fun simulate ::
  "real \<Rightarrow> real \<Rightarrow> real \<Rightarrow> nat \<Rightarrow> (nat \<Rightarrow> nat \<Rightarrow> real) \<Rightarrow> nat \<Rightarrow> real list
     \<Rightarrow> (real \<times> real list) list \<Rightarrow> error + (real \<times> real list) list" where
  "simulate r sigma dt n Z i [] S = Inr S"
| "simulate r sigma dt n Z i (t # ts) S =
     (let t_previous = np_round (binary64 (t - dt)) 6 in
      case dict_get S t_previous of Inl e \<Rightarrow> Inl e
      | Inr S_previous \<Rightarrow>
          simulate r sigma dt n Z (Suc i) ts
            (dict_set S t (advance r sigma dt n (Z i) S_previous)))"

text \<open>
  \<^verbatim>\<open>
  for t in t_span[::-1][1:]:
      t_next = np.round(t + \<Delta>t, 6)
      basis = chebyshev_basis(scale(S[t]), order)
      continuation_value[t] = ridge_regression(basis, value[t_next])
      value[t] = discount * tf.where(cashflow[t] > continuation_value[t],
                                     cashflow[t],
                                     value[t_next])
  \<close>
  The state of the loop is the pair of the dicts \<open>value\<close> and \<open>continuation_value\<close>.
\<close>

fun backward_loop ::
  "lstsq_op \<Rightarrow> nat \<Rightarrow> real \<Rightarrow> real \<Rightarrow> (real \<times> real list) list \<Rightarrow> (real \<times> real list) list
     \<Rightarrow> real list \<Rightarrow> (real \<times> real list) list \<times> (real \<times> tfloat list) list
     \<Rightarrow> error + (real \<times> real list) list \<times> (real \<times> tfloat list) list" where
  "backward_loop lstsq order dt discount S cashflow [] state = Inr state"
| "backward_loop lstsq order dt discount S cashflow (t # ts) (value, continuation_value) =
     (let t_next = np_round (binary64 (t + dt)) 6 in
      case dict_get S t of Inl e \<Rightarrow> Inl e | Inr S_t \<Rightarrow>
      (case chebyshev_basis (scale S_t) order of Inl e \<Rightarrow> Inl e | Inr basis \<Rightarrow>
      (case dict_get value t_next of Inl e \<Rightarrow> Inl e | Inr value_next \<Rightarrow>
      (let continuation_value =
             dict_set continuation_value t (ridge_regression lstsq basis value_next 100) in
       case dict_get cashflow t of Inl e \<Rightarrow> Inl e | Inr cashflow_t \<Rightarrow>
      (case dict_get continuation_value t of Inl e \<Rightarrow> Inl e | Inr continuation_t \<Rightarrow>
         backward_loop lstsq order dt discount S cashflow ts
           (dict_set value t
              (map (\<lambda>v. discount * v)
                 (tf_where (map2 (\<lambda>c q. tgreater (Fin c) q) cashflow_t continuation_t)
                    cashflow_t value_next)),
            continuation_value))))))"

text \<open>
  \<^verbatim>\<open>
  payoff = {t: tf.where(continuation_value[t] > cashflow[t],
                        tf.zeros(n),
                        cashflow[t]) for t in t_span}
  \<close>
\<close>

definition payoff_dict ::
  "nat \<Rightarrow> (real \<times> tfloat list) list \<Rightarrow> (real \<times> real list) list \<Rightarrow> real list
     \<Rightarrow> error + (real \<times> real list) list" where
  "payoff_dict n continuation_value cashflow t_span =
     dict_comprehension
       (\<lambda>t. ebind (dict_get continuation_value t) (\<lambda>continuation_t.
            ebind (dict_get cashflow t) (\<lambda>cashflow_t.
              Inr (tf_where (map2 (\<lambda>q c. tgreater q (Fin c)) continuation_t cashflow_t)
                     (replicate n 0) cashflow_t))))
       t_span"

text \<open>
  \<open>payoff[:, i]\<close>, column \<open>i\<close> of a matrix; an index that is not a column of the matrix is
  refused. \<open>tf.add_n\<close> adds the vectors of a non-empty list, \<open>tf.reduce_mean\<close> divides the
  sum of a vector by the number of its entries.
\<close>

definition column :: "real list list \<Rightarrow> nat \<Rightarrow> error + real list" where
  "column M i =
     (if list_all (\<lambda>row. i < length row) M then Inr (map (\<lambda>row. row ! i) M) else Inl ValueError)"

fun add_n :: "real list list \<Rightarrow> error + real list" where
  "add_n [] = Inl ValueError"
| "add_n (v # vs) = Inr (fold (\<lambda>w acc. map2 (+) acc w) vs v)"

definition reduce_mean :: "real list \<Rightarrow> tfloat" where
  "reduce_mean v = tdiv (Fin (sum_list v)) (Fin (real (length v)))"

text \<open>What a run of the cell leaves behind: its dicts, the payoff matrix and the price.\<close>

record lsmc_state =
  st_S :: "(real \<times> real list) list"
  st_cashflow :: "(real \<times> real list) list"
  st_value :: "(real \<times> real list) list"
  st_continuation_value :: "(real \<times> tfloat list) list"
  st_payoff :: "real list list"
  st_first_payoff :: "real list list"
  st_price :: tfloat

text \<open>
  \<^verbatim>\<open>
  \<Delta>t = T / m
  S = {0.: Spot * tf.ones(n)}
  t_span = np.round(np.arange(\<Delta>t, T + \<Delta>t, \<Delta>t), 6)
  for t in t_span: ...
  discount = tf.exp(-r * \<Delta>t)
  cashflow = {t: tf.maximum(0., K - S[t]) for t in t_span}
  value = {T: cashflow[T] * discount}
  continuation_value = {T: tf.zeros(n)}
  for t in t_span[::-1][1:]: ...
  payoff = {...}
  payoff = tf.stack(list(payoff.values()), axis=1)
  payoff = first_one(payoff)
  discounted_payoff = {i: payoff[:, i] * tf.exp(-r * i * \<Delta>t) for i in range(m)}
  price = tf.reduce_mean(tf.add_n(list(discounted_payoff.values())))
  \<close>
  The division \<open>T / m\<close> of the first cell is Python's and raises for \<open>m = 0\<close>. The keys of the
  dicts are the rounded times of \<open>t_span\<close>, and the loops look a neighbouring step up under
  the key they compute by \<open>np.round(t - \<Delta>t, 6)\<close> and \<open>np.round(t + \<Delta>t, 6)\<close>: when that
  number is not a stored key the lookup raises KeyError and the run ends. With \<open>T = 1\<close> and
  \<open>m = 3\<close>, for one, \<open>t_span\<close> is \<open>0.333333, 0.666667, 1.0\<close> and
  \<open>np.round(0.666667 - \<Delta>t, 6)\<close> is \<open>0.333334\<close>, which is no key of \<open>S\<close>. The entries of the
  tensors are exact reals, also where they are computed from \<open>\<Delta>t\<close>. The model is of runs
  with a maturity \<open>T > 0\<close> and \<open>n \<ge> 1\<close> paths: for \<open>T < 0\<close> numpy's \<open>sqrt\<close> does not give a real
  \<open>np.sqrt(\<Delta>t)\<close>, and the properties of a run below assume \<open>T > 0\<close>. \<open>st_payoff\<close> is the
  stacked matrix that \<open>first_one\<close> receives, \<open>st_first_payoff\<close> the matrix it returns.
\<close>

definition lsmc :: "lstsq_op \<Rightarrow> parameters \<Rightarrow> (nat \<Rightarrow> nat \<Rightarrow> real) \<Rightarrow> error + lsmc_state" where
  "lsmc lstsq p Z =
     (let Spot = p_Spot p; sigma = p_sigma p; K = p_K p; r = p_r p; T = p_T p;
          order = p_order p; n = p_n p; m = p_m p
      in
      ebind (if m = 0 then Inl ZeroDivisionError else Inr (binary64 (T / real m))) (\<lambda>dt.
      let S = [(0, map (\<lambda>one. Spot * one) (replicate n 1))] in
      ebind (arange dt (binary64 (T + dt)) dt) (\<lambda>ticks.
      let t_span = map (\<lambda>t. np_round t 6) ticks in
      ebind (simulate r sigma dt n Z 1 t_span S) (\<lambda>S.
      let discount = exp (- r * dt) in
      ebind (dict_comprehension
               (\<lambda>t. ebind (dict_get S t) (\<lambda>S_t. Inr (map (\<lambda>s. max 0 (K - s)) S_t))) t_span)
        (\<lambda>cashflow.
      ebind (dict_get cashflow T) (\<lambda>cashflow_T.
      let value = [(T, map (\<lambda>c. c * discount) cashflow_T)];
          continuation_value = [(T, replicate n (Fin 0))]
      in
      ebind (backward_loop lstsq order dt discount S cashflow (tl (rev t_span))
               (value, continuation_value))
        (\<lambda>(value, continuation_value).
      ebind (payoff_dict n continuation_value cashflow t_span) (\<lambda>payoff.
      let payoff = stack_axis1 (dict_values payoff);
          first_payoff = first_one payoff
      in
      ebind (dict_comprehension
               (\<lambda>i. ebind (column first_payoff i)
                      (\<lambda>c. Inr (map (\<lambda>v. v * exp (- r * real i * dt)) c))) [0..<m])
        (\<lambda>discounted_payoff.
      ebind (add_n (dict_values discounted_payoff)) (\<lambda>total.
      Inr \<lparr>st_S = S, st_cashflow = cashflow, st_value = value,
           st_continuation_value = continuation_value, st_payoff = payoff,
           st_first_payoff = first_payoff, st_price = reduce_mean total\<rparr>))))))))))"

subsection \<open>The quantities of a run, by recursion on the steps\<close>

text \<open>
  The definitions of this part are not code of the notebook: they name what its loops
  compute, so that the properties below can speak about \<open>S[t]\<close>, \<open>cashflow[t]\<close>, \<open>value[t]\<close>
  and \<open>continuation_value[t]\<close>. \<open>lsmc_closed\<close> proves that a run of the cell whose keys line
  up leaves exactly these values in its dicts.
\<close>

text \<open>
  Column \<open>j\<close> of the basis, by the recurrence of the loop on vectors of tensor entries.
\<close>

fun cheb_col :: "tfloat list \<Rightarrow> nat \<Rightarrow> tfloat list" where
  "cheb_col x 0 = ones_like x"
| "cheb_col x (Suc 0) = x"
| "cheb_col x (Suc (Suc j)) = vsub (vmul (smul (Fin 2) x) (cheb_col x (Suc j))) (cheb_col x j)"

text \<open>What \<open>first_one\<close> computes on one row of a matrix with \<open>length row\<close> columns.\<close>

definition first_one_row :: "real list \<Rightarrow> real list" where
  "first_one_row row =
     (let x = map (\<lambda>v. if 0 < v then 1 else 0) row;
          x_not = map (\<lambda>v. 1 - v) x;
          sum_x = map (\<lambda>v. min v 1) (cumprod x_not);
          lag = [1] @ take (length row - 1) sum_x
      in map2 (*) row (map2 (*) lag x))"

text \<open>The matrix \<open>chebyshev_basis\<close> returns: the columns \<open>0, ..., max k 2 - 1\<close>.\<close>

definition cheb_matrix :: "tfloat list \<Rightarrow> nat \<Rightarrow> tfloat list list" where
  "cheb_matrix x k = stack_axis1 (map (cheb_col x) [0..<max k 2])"

text \<open>\<open>\<Delta>t = T / m\<close> and \<open>discount = exp(-r \<Delta>t)\<close>.\<close>

definition dt_of :: "parameters \<Rightarrow> real" where
  "dt_of p = binary64 (p_T p / real (p_m p))"

definition discount_of :: "parameters \<Rightarrow> real" where
  "discount_of p = exp (- p_r p * dt_of p)"

text \<open>
  \<open>t_span\<close>, and the key of step \<open>i\<close>: \<open>0.\<close> for the start, and element \<open>i - 1\<close> of \<open>t_span\<close>
  for step \<open>i \<ge> 1\<close>.
\<close>

definition t_span_of :: "parameters \<Rightarrow> real list" where
  "t_span_of p =
     (case arange (dt_of p) (binary64 (p_T p + dt_of p)) (dt_of p) of
        Inl e \<Rightarrow> []
      | Inr ticks \<Rightarrow> map (\<lambda>t. np_round t 6) ticks)"

definition time_key :: "parameters \<Rightarrow> nat \<Rightarrow> real" where
  "time_key p i = (0 # t_span_of p) ! i"

text \<open>
  The keys of a run line up when \<open>t_span\<close> has \<open>m\<close> elements, the keys of the steps
  \<open>0, ..., m\<close> are \<open>m + 1\<close> different numbers, the key the simulation loop computes for the
  step before step \<open>i\<close> is the key of step \<open>i - 1\<close>, the key the backward loop computes for
  the step after step \<open>i\<close> is the key of step \<open>i + 1\<close>, and the key of step \<open>m\<close> is the number
  \<open>T\<close> itself. The notebook's \<open>T = 1\<close>, \<open>m = 10\<close> has that property
  (\<open>notebook_keys_aligned\<close>). \<open>T = 1\<close>, \<open>m = 3\<close> has not, and the run raises KeyError
  (\<open>three_steps_KeyError\<close>); nor has \<open>T = 0.1\<close>, \<open>m = 2\<close>, where \<open>np.arange\<close> returns three
  elements (\<open>tenth_maturity_KeyError\<close>).
\<close>

definition keys_aligned :: "parameters \<Rightarrow> bool" where
  "keys_aligned p \<longleftrightarrow>
       dt_of p \<noteq> 0
     \<and> length (t_span_of p) = p_m p
     \<and> distinct (map (time_key p) [0..<Suc (p_m p)])
     \<and> list_all (\<lambda>i. np_round (binary64 (time_key p i - dt_of p)) 6 = time_key p (i - 1))
          [1..<Suc (p_m p)]
     \<and> list_all (\<lambda>i. np_round (binary64 (time_key p i + dt_of p)) 6 = time_key p (i + 1))
          [1..<p_m p]
     \<and> time_key p (p_m p) = p_T p"

text \<open>
  The double nearest to \<open>x\<close>, by scaling: \<open>normalise\<close> doubles or halves \<open>x\<close> until it lies in
  \<open>[2^52, 2^53)\<close>, where the doubles are the integers. \<open>binary64_round_scaled\<close> proves that
  this is \<open>binary64 x\<close> whenever the scaling gets there in \<open>n\<close> steps.
\<close>

fun normalise :: "nat \<Rightarrow> real \<Rightarrow> int \<Rightarrow> real \<times> int" where
  "normalise 0 x e = (x, e)"
| "normalise (Suc n) x e =
     (if x < 2 ^ 52 then normalise n (2 * x) (e - 1)
      else if 2 ^ 53 \<le> x then normalise n (x / 2) (e + 1)
      else (x, e))"

definition in_range :: "nat \<Rightarrow> real \<Rightarrow> bool" where
  "in_range n x \<longleftrightarrow>
     x \<noteq> 0 \<and> (case normalise n \<bar>x\<bar> 0 of (y, e) \<Rightarrow> 2 ^ 52 \<le> y \<and> y < 2 ^ 53)"

definition round_scaled :: "nat \<Rightarrow> real \<Rightarrow> real" where
  "round_scaled n x =
     (case normalise n \<bar>x\<bar> 0 of (y, e) \<Rightarrow>
        sgn x * (if 0 \<le> e then of_int (rint y) * 2 ^ nat e else of_int (rint y) / 2 ^ nat (- e)))"

text \<open>\<open>S[t]\<close>: the cross-section of the asset price at step \<open>t\<close>.\<close>

fun S_at :: "parameters \<Rightarrow> (nat \<Rightarrow> nat \<Rightarrow> real) \<Rightarrow> nat \<Rightarrow> real list" where
  "S_at p Z 0 = replicate (p_n p) (p_Spot p)"
| "S_at p Z (Suc t) =
     advance (p_r p) (p_sigma p) (dt_of p) (p_n p) (Z (Suc t)) (S_at p Z t)"

text \<open>\<open>cashflow[t] = max(0, K - S[t])\<close>.\<close>

definition cashflow_at :: "parameters \<Rightarrow> (nat \<Rightarrow> nat \<Rightarrow> real) \<Rightarrow> nat \<Rightarrow> real list" where
  "cashflow_at p Z t = map (\<lambda>s. max 0 (p_K p - s)) (S_at p Z t)"

text \<open>
  The pair \<open>(value[m - d], continuation_value[m - d])\<close>, by recursion on the number \<open>d\<close> of
  steps before maturity, as the specification states the backward induction.
\<close>

fun back_at ::
  "lstsq_op \<Rightarrow> parameters \<Rightarrow> (nat \<Rightarrow> nat \<Rightarrow> real) \<Rightarrow> nat \<Rightarrow> real list \<times> tfloat list" where
  "back_at lstsq p Z 0 =
     (map (\<lambda>c. c * discount_of p) (cashflow_at p Z (p_m p)), replicate (p_n p) (Fin 0))"
| "back_at lstsq p Z (Suc d) =
     (let t = p_m p - Suc d;
          value_next = fst (back_at lstsq p Z d);
          continuation_t =
            ridge_regression lstsq (cheb_matrix (scale (S_at p Z t)) (p_order p)) value_next 100
      in (map (\<lambda>v. discount_of p * v)
            (tf_where (map2 (\<lambda>c q. tgreater (Fin c) q) (cashflow_at p Z t) continuation_t)
               (cashflow_at p Z t) value_next),
          continuation_t))"

definition value_at :: "lstsq_op \<Rightarrow> parameters \<Rightarrow> (nat \<Rightarrow> nat \<Rightarrow> real) \<Rightarrow> nat \<Rightarrow> real list" where
  "value_at lstsq p Z t = fst (back_at lstsq p Z (p_m p - t))"

definition continuation_at ::
  "lstsq_op \<Rightarrow> parameters \<Rightarrow> (nat \<Rightarrow> nat \<Rightarrow> real) \<Rightarrow> nat \<Rightarrow> tfloat list" where
  "continuation_at lstsq p Z t = snd (back_at lstsq p Z (p_m p - t))"

text \<open>\<open>payoff[t]\<close>, the per-date payoff before extraction.\<close>

definition payoff_at :: "lstsq_op \<Rightarrow> parameters \<Rightarrow> (nat \<Rightarrow> nat \<Rightarrow> real) \<Rightarrow> nat \<Rightarrow> real list" where
  "payoff_at lstsq p Z t =
     tf_where (map2 (\<lambda>q c. tgreater q (Fin c)) (continuation_at lstsq p Z t) (cashflow_at p Z t))
       (replicate (p_n p) 0) (cashflow_at p Z t)"

text \<open>The stacked payoff matrix, the discounted columns and their sum over the dates.\<close>

definition payoff_matrix_at ::
  "lstsq_op \<Rightarrow> parameters \<Rightarrow> (nat \<Rightarrow> nat \<Rightarrow> real) \<Rightarrow> real list list" where
  "payoff_matrix_at lstsq p Z = stack_axis1 (map (payoff_at lstsq p Z) [1..<Suc (p_m p)])"

definition discounted_at ::
  "lstsq_op \<Rightarrow> parameters \<Rightarrow> (nat \<Rightarrow> nat \<Rightarrow> real) \<Rightarrow> nat \<Rightarrow> real list" where
  "discounted_at lstsq p Z i =
     map (\<lambda>v. v * exp (- p_r p * real i * dt_of p))
       (map (\<lambda>row. row ! i) (first_one (payoff_matrix_at lstsq p Z)))"

definition total_at :: "lstsq_op \<Rightarrow> parameters \<Rightarrow> (nat \<Rightarrow> nat \<Rightarrow> real) \<Rightarrow> real list" where
  "total_at lstsq p Z =
     map (\<lambda>j. \<Sum>i\<leftarrow>[0..<p_m p]. discounted_at lstsq p Z i ! j) [0..<p_n p]"

text \<open>What a run whose keys line up leaves behind, in these terms.\<close>

definition run_state :: "lstsq_op \<Rightarrow> parameters \<Rightarrow> (nat \<Rightarrow> nat \<Rightarrow> real) \<Rightarrow> lsmc_state" where
  "run_state lstsq p Z =
     \<lparr>st_S = map (\<lambda>t. (time_key p t, S_at p Z t)) [0..<Suc (p_m p)],
      st_cashflow = map (\<lambda>t. (time_key p t, cashflow_at p Z t)) [1..<Suc (p_m p)],
      st_value = map (\<lambda>t. (time_key p t, value_at lstsq p Z t)) (rev [1..<Suc (p_m p)]),
      st_continuation_value =
        map (\<lambda>t. (time_key p t, continuation_at lstsq p Z t)) (rev [1..<Suc (p_m p)]),
      st_payoff = payoff_matrix_at lstsq p Z,
      st_first_payoff = first_one (payoff_matrix_at lstsq p Z),
      st_price = reduce_mean (total_at lstsq p Z)\<rparr>"

subsection \<open>Example runs\<close>

text \<open>
  Runs with two paths and two steps of length \<open>\<Delta>t = 1\<close>, for the examples below. The basis
  of order 2 of a scaled cross-section of two distinct prices, the smaller one first, is the
  design matrix \<open>[[1, -1], [1, 1]]\<close>; for that matrix \<open>two_path_solver\<close> is the exact
  minimiser of the ridge objective, as \<open>two_path_solver_minimises\<close> proves. The spot, the
  strike and the draws of the examples are binary fractions, so that the simulation, the
  cashflows and the scaling are exact in float32 as well. In the first two runs the
  interest rate is 0 and the one regression target that is not zero is \<open>439.875\<close>, for
  which the float32 solution of the library by the Cholesky factor of \<open>102 I\<close> is the exact
  coefficient \<open>439.875 / 102 = 4.3125\<close>, with the fitted values \<open>8.625\<close> and \<open>0\<close>. In
  the third run the rate \<open>1/16\<close> brings in \<open>exp(-1/16)\<close>, which float32 rounds; no comparison of
  that run depends on the rounding, the cashflows of step 1 being \<open>0\<close> and the fitted
  values about \<open>9.43\<close> and exactly \<open>0\<close>.
\<close>

definition two_path_solver :: lstsq_op where
  "two_path_solver X Y l = [Fin ((Y ! 0 + Y ! 1) / (2 + l)), Fin ((Y ! 1 - Y ! 0) / (2 + l))]"

text \<open>
  A run that exercises at step 1 on path 0 (cashflow \<open>8\<close>, continuation \<open>0\<close>) and holds on
  path 1 (cashflow \<open>0\<close>, continuation \<open>8.625\<close>).
\<close>

definition exercise_parameters :: parameters where
  "exercise_parameters = \<lparr>p_Spot = 1024, p_sigma = 1, p_K = 1032, p_r = 0, p_T = 2,
                            p_order = 2, p_n = 2, p_m = 2\<rparr>"

definition exercise_draws :: "nat \<Rightarrow> nat \<Rightarrow> real" where
  "exercise_draws i j = (if i = 1 then (if j = 1 then 1 else 0)
                         else (if j = 0 then 1 / 64 else - (11647 / 16384)))"

text \<open>
  A run with a tie at step 1 on path 0: the cashflow and the continuation value are both
  \<open>8.625\<close>.
\<close>

definition tie_parameters :: parameters where
  "tie_parameters = \<lparr>p_Spot = 1024, p_sigma = 1, p_K = 8261 / 8, p_r = 0, p_T = 2,
                       p_order = 2, p_n = 2, p_m = 2\<rparr>"

definition tie_draws :: "nat \<Rightarrow> nat \<Rightarrow> real" where
  "tie_draws i j = (if i = 1 then (if j = 1 then 1 else 0)
                    else (if j = 0 then - (1725 / 4096) else 0))"





definition negative_volatility_parameters :: parameters where
  "negative_volatility_parameters =
     \<lparr>p_Spot = 36, p_sigma = - (1 / 5), p_K = 40, p_r = 3 / 50, p_T = 1,
      p_order = 25, p_n = 1, p_m = 1\<rparr>"

definition unit_draws :: "nat \<Rightarrow> nat \<Rightarrow> real" where
  "unit_draws i j = 1"

text \<open>
  The parameters of the notebook; the notebook's parameters with three steps; and with two
  steps and the maturity \<open>0.1\<close>, the double \<open>3602879701896397 / 2^55\<close>.
\<close>

definition notebook_parameters :: parameters where
  "notebook_parameters = \<lparr>p_Spot = 36, p_sigma = 1 / 5, p_K = 40, p_r = 3 / 50, p_T = 1,
                            p_order = 25, p_n = 100000, p_m = 10\<rparr>"

definition three_step_parameters :: parameters where
  "three_step_parameters = \<lparr>p_Spot = 36, p_sigma = 1 / 5, p_K = 40, p_r = 3 / 50, p_T = 1,
                              p_order = 25, p_n = 100000, p_m = 3\<rparr>"

definition tenth_maturity_parameters :: parameters where
  "tenth_maturity_parameters =
     \<lparr>p_Spot = 36, p_sigma = 1 / 5, p_K = 40, p_r = 3 / 50,
      p_T = 3602879701896397 / 36028797018963968, p_order = 25, p_n = 100000, p_m = 2\<rparr>"

section \<open>Properties\<close>

subsection \<open>scale\<close>

lemma reduce_min_Min: "x \<noteq> [] \<Longrightarrow> reduce_min x = Fin (Min (set x))"
  by (cases x) (simp_all add: Min.set_eq_fold [symmetric])

lemma reduce_max_Max: "x \<noteq> [] \<Longrightarrow> reduce_max x = Fin (Max (set x))"
  by (cases x) (simp_all add: Max.set_eq_fold [symmetric])

lemma degenerate_entries:
  assumes "x \<noteq> []" and "Min (set x) = Max (set x)" and "v \<in> set x"
  shows "v = Max (set x)"
proof -
  have "Min (set x) \<le> v" and "v \<le> Max (set x)"
    using assms(3) by simp_all
  with assms(2) show ?thesis by simp
qed

lemma degenerate_entry_NaN:
  "tadd (tmul (tdiv (Fin 2) (tsub (Fin c) (Fin c))) (Fin c))
        (tsub (Fin 1) (tmul (tdiv (Fin 2) (tsub (Fin c) (Fin c))) (Fin c))) = NaN"
  by (simp add: tsub_def signed_inf_def)

text \<open>
  Claim C7, as amended. The specification asks for a DegenerateInput error when
  \<open>min(x) = max(x)\<close>. The function has no check: on every non-empty cross-section with
  \<open>min(x) = max(x)\<close> it divides \<open>2\<close> by zero and returns, without raising, a vector of the
  same length whose entries are all NaN.
\<close>

theorem scale_degenerate_returns_NaN:
  assumes "x \<noteq> []" and "Min (set x) = Max (set x)"
  shows "scale x = replicate (length x) NaN"
proof -
  let ?c = "Max (set x)"
  have all_c: "\<And>v. v \<in> set x \<Longrightarrow> v = ?c"
    using degenerate_entries [OF assms] .
  have "scale x = map (\<lambda>v. tadd (tmul (tdiv (Fin 2) (tsub (Fin ?c) (Fin ?c))) (Fin v))
                       (tsub (Fin 1) (tmul (tdiv (Fin 2) (tsub (Fin ?c) (Fin ?c))) (Fin ?c)))) x"
    using assms by (simp add: scale_def reduce_min_Min reduce_max_Max Let_def)
  also have "\<dots> = map (\<lambda>v. NaN) x"
  proof (rule map_cong [OF refl])
    fix v assume "v \<in> set x"
    then have "v = ?c" by (rule all_c)
    then show "tadd (tmul (tdiv (Fin 2) (tsub (Fin ?c) (Fin ?c))) (Fin v))
                 (tsub (Fin 1) (tmul (tdiv (Fin 2) (tsub (Fin ?c) (Fin ?c))) (Fin ?c))) = NaN"
      using degenerate_entry_NaN [of ?c] by simp
  qed
  also have "\<dots> = replicate (length x) NaN"
    by (simp add: map_replicate_const)
  finally show ?thesis .
qed

theorem scale_degenerate_witness:
  "[10, 10, 10] \<noteq> ([] :: real list) \<and> Min (set [10, 10, 10 :: real]) = Max (set [10, 10, 10])
   \<and> scale [10, 10, 10] = replicate (length [10, 10, 10 :: real]) NaN"
  using scale_degenerate_returns_NaN [of "[10, 10, 10]"] by simp

text \<open>
  Claim C7 as stated fails: the cross-section with all entries \<open>10.0\<close> is scaled to three
  NaNs, a returned value and not an error.
\<close>

theorem scale_degenerate_counterexample:
  "scale [10, 10, 10] = [NaN, NaN, NaN]"
  by (simp add: scale_def tsub_def signed_inf_def)

text \<open>
  The scaling policy of the specification, on a cross-section with two distinct prices:
  the result is finite, the affine image of \<open>x\<close> with \<open>min(x)\<close> sent to \<open>-1\<close> and \<open>max(x)\<close> to
  \<open>1\<close>, so every entry lies in \<open>[-1, 1]\<close>.
\<close>

theorem scale_affine:
  assumes "x \<noteq> []" and "Min (set x) < Max (set x)"
  shows "\<exists>a b. 0 < a
     \<and> scale x = map (\<lambda>v. Fin (a * v + b)) x
     \<and> a * Min (set x) + b = - 1 \<and> a * Max (set x) + b = 1
     \<and> (\<forall>v\<in>set x. - 1 \<le> a * v + b \<and> a * v + b \<le> 1)"
proof -
  define lo where "lo = Min (set x)"
  define hi where "hi = Max (set x)"
  define a where "a = 2 / (hi - lo)"
  define b where "b = 1 - a * hi"
  from assms(2) have d: "hi - lo \<noteq> 0" "0 < hi - lo"
    by (simp_all add: lo_def hi_def)
  then have a: "0 < a" by (simp add: a_def)
  have ad: "a * (hi - lo) = 2"
    unfolding a_def times_divide_eq_left by (rule nonzero_mult_div_cancel_right [OF d(1)])
  have red: "reduce_min x = Fin lo" "reduce_max x = Fin hi"
    using assms(1) by (simp_all add: reduce_min_Min reduce_max_Max lo_def hi_def)
  have sc: "scale x = map (\<lambda>v. Fin (a * v + b)) x"
    unfolding scale_def red Let_def
    using d by (simp add: tsub_def a_def b_def)
  have lo: "a * lo + b = - 1"
    using ad by (simp add: b_def algebra_simps)
  have hi: "a * hi + b = 1"
    by (simp add: b_def)
  have range: "- 1 \<le> a * v + b \<and> a * v + b \<le> 1" if "v \<in> set x" for v
  proof -
    from that have "lo \<le> v" and "v \<le> hi" by (simp_all add: lo_def hi_def)
    with a have "a * lo \<le> a * v" and "a * v \<le> a * hi"
      by (simp_all add: mult_left_mono)
    with lo hi show ?thesis by linarith
  qed
  from a sc lo hi range show ?thesis
    unfolding lo_def hi_def by blast
qed

theorem scale_affine_witness:
  "scale [51, 52] = [Fin (- 1), Fin 1]"
proof -
  have "[51, 52] \<noteq> ([] :: real list)" and "Min (set [51, 52 :: real]) < Max (set [51, 52])"
    by simp_all
  from scale_affine [OF this] obtain a b :: real where "scale [51, 52] = map (\<lambda>v. Fin (a * v + b)) [51, 52]"
    and "a * Min (set [51, 52]) + b = - 1" and "a * Max (set [51, 52]) + b = 1"
    by (elim exE conjE)
  then show ?thesis by simp
qed

subsection \<open>Dictionaries\<close>

lemma dict_get_set:
  "dict_get (dict_set d k v) k' = (if k' = k then Inr v else dict_get d k')"
  by (simp add: dict_get_def dict_set_def update_conv')

lemma dict_set_append:
  "k \<notin> fst ` set d \<Longrightarrow> dict_set d k v = d @ [(k, v)]"
  unfolding dict_set_def by (induction d) auto

lemma dict_get_map_keys:
  "dict_get (map (\<lambda>i. (i, f i)) ks) k = (if k \<in> set ks then Inr (f k) else Inl KeyError)"
  by (simp add: dict_get_def map_of_map_restrict restrict_map_def)

subsection \<open>chebyshev\_basis\<close>

lemma chebyshev_loop_columns:
  assumes "2 \<le> j" and "j \<le> k"
  shows "chebyshev_loop x [j..<k] (map (\<lambda>i. (i, cheb_col x i)) [0..<j])
           = Inr (map (\<lambda>i. (i, cheb_col x i)) [0..<k])"
  using assms
proof (induction "k - j" arbitrary: j)
  case 0
  then show ?case by simp
next
  case (Suc d)
  then have lt: "j < k" by simp
  define B where "B = map (\<lambda>i. (i, cheb_col x i)) [0..<j]"
  from Suc.prems obtain j' where j': "j = Suc (Suc j')"
    by (metis Suc_le_D numeral_2_eq_2 Suc_le_mono)
  have b1: "dict_get B (j - 1) = Inr (cheb_col x (j - 1))"
    and b2: "dict_get B (j - 2) = Inr (cheb_col x (j - 2))"
    using Suc.prems(1) by (simp_all add: B_def dict_get_map_keys)
  have col: "vsub (vmul (smul (Fin 2) x) (cheb_col x (j - 1))) (cheb_col x (j - 2)) = cheb_col x j"
    by (simp add: j')
  have set: "dict_set B j (cheb_col x j) = map (\<lambda>i. (i, cheb_col x i)) [0..<Suc j]"
    unfolding B_def by (subst dict_set_append) (auto simp: image_iff)
  have "chebyshev_loop x [j..<k] B = chebyshev_loop x (j # [Suc j..<k]) B"
    using lt by (simp only: upt_conv_Cons)
  also have "\<dots> = chebyshev_loop x [Suc j..<k] (map (\<lambda>i. (i, cheb_col x i)) [0..<Suc j])"
    using b1 b2 col by (simp add: set del: upt_Suc)
  also have "\<dots> = Inr (map (\<lambda>i. (i, cheb_col x i)) [0..<k])"
    using Suc.hyps(2) Suc.prems lt by (intro Suc.hyps(1)) simp_all
  finally show ?case by (simp only: B_def)
qed

lemma chebyshev_basis_columns:
  "chebyshev_basis x k = Inr (stack_axis1 (map (cheb_col x) [0..<max k 2]))"
proof -
  have init: "dict_set (dict_set [] 0 (ones_like x)) 1 x = map (\<lambda>i. (i, cheb_col x i)) [0..<2]"
    by (simp add: dict_set_def numeral_2_eq_2)
  have vals: "\<And>n. dict_values (map (\<lambda>i. (i, cheb_col x i)) [0..<n]) = map (cheb_col x) [0..<n]"
    by (simp add: dict_values_def comp_def del: upt_Suc)
  show ?thesis
  proof (cases "2 \<le> k")
    case True
    then have "chebyshev_loop x [2..<k] (map (\<lambda>i. (i, cheb_col x i)) [0..<2])
                 = Inr (map (\<lambda>i. (i, cheb_col x i)) [0..<k])"
      by (intro chebyshev_loop_columns) simp_all
    with True show ?thesis
      unfolding chebyshev_basis_def Let_def init
      by (simp add: ebind_def vals max_def del: upt_Suc)
  next
    case False
    then have "[2..<k] = []" and "max k 2 = 2" by simp_all
    then show ?thesis
      unfolding chebyshev_basis_def Let_def init
      by (simp add: ebind_def vals del: upt_Suc)
  qed
qed

lemma length_cheb_col [simp]: "length (cheb_col x j) = length x"
  by (induction x j rule: cheb_col.induct) (simp_all add: ones_like_def vsub_def vmul_def smul_def)

lemma cheb_col_finite_pair:
  "cheb_col (map Fin x) j = map (\<lambda>v. Fin (cheb_T j v)) x
   \<and> cheb_col (map Fin x) (Suc j) = map (\<lambda>v. Fin (cheb_T (Suc j) v)) x"
proof (induction j)
  case 0
  show ?case by (simp add: ones_like_def map_replicate_const)
next
  case (Suc j)
  then show ?case
    by (simp add: vsub_def vmul_def smul_def tsub_def zip_map_map zip_same_conv_map comp_def)
qed

lemma cheb_col_finite:
  "cheb_col (map Fin x) j = map (\<lambda>v. Fin (cheb_T j v)) x"
  using cheb_col_finite_pair [of x j] by simp

lemma stack_columns:
  assumes "1 \<le> p"
  shows "stack_axis1 (map (\<lambda>j. map (f j) x) [0..<p]) = map (\<lambda>v. map (\<lambda>j. f j v) [0..<p]) x"
proof -
  let ?cols = "map (\<lambda>j. map (f j) x) [0..<p]"
  have "transpose ?cols = map (\<lambda>i. map (\<lambda>j. ?cols ! j ! i) [0..<length ?cols]) [0..<length x]"
    using assms by (intro transpose_rectangle) auto
  also have "\<dots> = map (\<lambda>v. map (\<lambda>j. f j v) [0..<p]) x"
  proof (rule nth_equalityI)
    show "length (map (\<lambda>i. map (\<lambda>j. ?cols ! j ! i) [0..<length ?cols]) [0..<length x])
            = length (map (\<lambda>v. map (\<lambda>j. f j v) [0..<p]) x)"
      by simp
  next
    fix i assume "i < length (map (\<lambda>i. map (\<lambda>j. ?cols ! j ! i) [0..<length ?cols]) [0..<length x])"
    then have i: "i < length x" by simp
    then show "map (\<lambda>i. map (\<lambda>j. ?cols ! j ! i) [0..<length ?cols]) [0..<length x] ! i
                 = map (\<lambda>v. map (\<lambda>j. f j v) [0..<p]) x ! i"
      by simp
  qed
  finally show ?thesis by (simp add: stack_axis1_def)
qed

lemma chebyshev_basis_finite:
  "chebyshev_basis (map Fin x) k
     = Inr (map (\<lambda>v. map (\<lambda>j. Fin (cheb_T j v)) [0..<max k 2]) x)"
proof -
  have "cheb_col (map Fin x) = (\<lambda>j. map (\<lambda>v. Fin (cheb_T j v)) x)"
    by (rule ext) (rule cheb_col_finite)
  then have "stack_axis1 (map (cheb_col (map Fin x)) [0..<max k 2])
          = stack_axis1 (map (\<lambda>j. map (\<lambda>v. Fin (cheb_T j v)) x) [0..<max k 2])"
    by (simp only:)
  also have "\<dots> = map (\<lambda>v. map (\<lambda>j. Fin (cheb_T j v)) [0..<max k 2]) x"
    by (rule stack_columns) simp
  finally show ?thesis by (simp only: chebyshev_basis_columns)
qed

text \<open>
  Claim C6, as amended: for every vector \<open>x\<close> of \<open>n\<close> finite values (those in \<open>[-1, 1]\<close>
  among them) and every order \<open>p \<ge> 2\<close> the basis is the \<open>n \<times> p\<close> matrix whose columns are
  \<open>T\<^sub>0(x), ..., T\<^bsub>p-1\<^esub>(x)\<close>; for \<open>p \<ge> 3\<close> and \<open>x = 0.5\<close> the first three values of the
  row are \<open>1\<close>, \<open>0.5\<close> and \<open>-0.5\<close>.
\<close>

theorem chebyshev_basis_contract:
  assumes "2 \<le> p"
  shows "chebyshev_basis (map Fin x) p = Inr (map (\<lambda>v. map (\<lambda>j. Fin (cheb_T j v)) [0..<p]) x)
       \<and> (3 \<le> p \<longrightarrow> (\<exists>row. chebyshev_basis [Fin (1/2)] p = Inr [row]
                         \<and> take 3 row = [Fin 1, Fin (1/2), Fin (- (1/2))]))"
proof -
  from assms have p: "max p 2 = p" by simp
  have first: "chebyshev_basis (map Fin x) p = Inr (map (\<lambda>v. map (\<lambda>j. Fin (cheb_T j v)) [0..<p]) x)" for x
    using chebyshev_basis_finite [of x p] by (simp only: p)
  have second: "\<exists>row. chebyshev_basis [Fin (1/2)] p = Inr [row]
                  \<and> take 3 row = [Fin 1, Fin (1/2), Fin (- (1/2))]" if "3 \<le> p"
  proof -
    have "take 3 (map (\<lambda>j. Fin (cheb_T j (1/2))) [0..<p]) = map (\<lambda>j. Fin (cheb_T j (1/2))) [0..<3]"
      using that by (simp add: take_map)
    also have "\<dots> = [Fin 1, Fin (1/2), Fin (- (1/2))]"
      by (simp add: numeral_3_eq_3 upt_rec)
    finally show ?thesis
      using first [of "[1/2]"] by simp
  qed
  from first second show ?thesis by blast
qed

theorem chebyshev_basis_witness:
  "chebyshev_basis [Fin (1/2), Fin (-1)] 4
     = Inr [[Fin 1, Fin (1/2), Fin (- (1/2)), Fin (-1)], [Fin 1, Fin (-1), Fin 1, Fin (-1)]]"
  using chebyshev_basis_contract [of 4 "[1/2, -1]"]
  by (simp add: upt_rec numeral_eq_Suc)

text \<open>
  Claim C6 as stated fails at order \<open>p = 1\<close>: \<open>B[1] = x\<close> is stored whatever \<open>k\<close> is, so
  the basis of one value has two columns, \<open>T\<^sub>0\<close> and \<open>T\<^sub>1\<close>, not one.
\<close>

theorem chebyshev_basis_order_one_counterexample:
  "chebyshev_basis [Fin (1/2)] 1 = Inr [[Fin 1, Fin (1/2)]]"
  by (simp add: chebyshev_basis_def Let_def ebind_def dict_set_def dict_values_def
                stack_axis1_def ones_like_def)

subsection \<open>first\_one\<close>

lemma length_cumprod_from: "length (cumprod_from acc xs) = length xs"
  by (induction xs arbitrary: acc) simp_all

lemma cumprod_from_nth:
  "j < length xs \<Longrightarrow> cumprod_from acc xs ! j = acc * prod_list (take (Suc j) xs)"
proof (induction xs arbitrary: acc j)
  case Nil
  then show ?case by simp
next
  case (Cons v vs)
  show ?case
  proof (cases j)
    case 0
    then show ?thesis by simp
  next
    case (Suc i)
    with Cons.prems have "i < length vs" by simp
    from Cons.IH [OF this, of "acc * v"] Suc show ?thesis
      by (simp add: mult.assoc)
  qed
qed

lemma prod_list_not_indicator:
  "prod_list (map (\<lambda>v. 1 - (if 0 < v then 1 else 0 :: real)) ys) =
     (if list_all (\<lambda>v. \<not> 0 < v) ys then 1 else 0)"
  by (induction ys) simp_all

lemma n_columns_of_map [simp]: "n_columns_of (map (map f) x) = n_columns_of x"
  by (cases x) (simp_all add: n_columns_of_def)

lemma length_cumprod [simp]: "length (cumprod xs) = length xs"
  by (simp add: cumprod_def length_cumprod_from)

lemma first_one_rows:
  assumes "\<forall>row\<in>set x. length row = n_columns_of x"
  shows "first_one x = map first_one_row x"
proof -
  have len: "\<And>i. i < length x \<Longrightarrow> length (x ! i) = n_columns_of x"
    using assms by simp
  show ?thesis
    by (auto simp: list_eq_iff_nth_eq first_one_def Let_def first_one_row_def len)
qed

lemma length_first_one_row [simp]: "length (first_one_row row) = length row"
  by (cases row) (simp_all add: first_one_row_def Let_def)

lemma cumprod_nth:
  "j < length xs \<Longrightarrow> cumprod xs ! j = prod_list (take (Suc j) xs)"
  by (simp add: cumprod_def cumprod_from_nth)

lemma lag_entry:
  assumes "i < length row"
  shows "min (cumprod (map (\<lambda>v. 1 - v) (map (\<lambda>v. if 0 < v then 1 else 0) row)) ! i) 1
           = (if list_all (\<lambda>v. \<not> 0 < v) (take (Suc i) row) then 1 else (0::real))"
proof -
  have "cumprod (map (\<lambda>v. 1 - v) (map (\<lambda>v. if 0 < v then 1 else 0) row)) ! i
          = prod_list (take (Suc i) (map (\<lambda>v. 1 - (if 0 < v then 1 else 0)) row))"
    using assms by (simp add: cumprod_nth comp_def)
  also have "\<dots> = prod_list (map (\<lambda>v. 1 - (if 0 < v then 1 else 0)) (take (Suc i) row))"
    by (simp only: take_map)
  also have "\<dots> = (if list_all (\<lambda>v. \<not> 0 < v) (take (Suc i) row) then 1 else 0)"
    by (rule prod_list_not_indicator)
  finally show ?thesis by simp
qed

lemma first_one_row_nth:
  assumes "j < length row"
  shows "first_one_row row ! j =
           (if 0 < row ! j \<and> list_all (\<lambda>v. \<not> 0 < v) (take j row) then row ! j else 0)"
proof (cases j)
  case 0
  with assms show ?thesis
    by (cases row) (simp_all add: first_one_row_def Let_def)
next
  case (Suc i)
  with assms have i: "i < length row - 1" "i < length row" by simp_all
  have "first_one_row row ! j =
          row ! j * (min (cumprod (map (\<lambda>v. 1 - v) (map (\<lambda>v. if 0 < v then 1 else 0) row)) ! i) 1
                      * (if 0 < row ! j then 1 else 0))"
    using assms i Suc by (simp add: first_one_row_def Let_def)
  also have "\<dots> = row ! j * ((if list_all (\<lambda>v. \<not> 0 < v) (take j row) then 1 else 0)
                      * (if 0 < row ! j then 1 else 0))"
    using lag_entry [OF i(2)] Suc by simp
  finally show ?thesis by simp
qed

lemma length_first_positive_only [simp]:
  "length (first_positive_only row) = length row"
  by (simp add: first_positive_only_def)

lemma first_positive_only_nth:
  "j < length row \<Longrightarrow> first_positive_only row ! j =
     (if 0 < row ! j \<and> list_all (\<lambda>v. \<not> 0 < v) (take j row) then row ! j else 0)"
  by (simp add: first_positive_only_def)

lemma first_one_row_eq: "first_one_row row = first_positive_only row"
proof (rule nth_equalityI)
  show "length (first_one_row row) = length (first_positive_only row)" by simp
next
  fix j assume "j < length (first_one_row row)"
  then have "j < length row" by simp
  then show "first_one_row row ! j = first_positive_only row ! j"
    by (simp only: first_one_row_nth first_positive_only_nth)
qed

lemma list_all_take:
  "j \<le> length xs \<Longrightarrow> list_all P (take j xs) \<longleftrightarrow> (\<forall>k<j. P (xs ! k))"
  by (simp add: list_all_length)

lemma first_positive_only_idem:
  "first_positive_only (first_positive_only row) = first_positive_only row"
proof (rule nth_equalityI)
  show "length (first_positive_only (first_positive_only row)) = length (first_positive_only row)"
    by simp
next
  fix j assume "j < length (first_positive_only (first_positive_only row))"
  then have j: "j < length row" by simp
  let ?r = "first_positive_only row"
  have entry: "\<And>k. k < length row \<Longrightarrow>
      ?r ! k = (if 0 < row ! k \<and> (\<forall>i<k. \<not> 0 < row ! i) then row ! k else 0)"
    by (simp add: first_positive_only_nth list_all_take)
  have "?r ! j = (if 0 < ?r ! j \<and> (\<forall>k<j. \<not> 0 < ?r ! k) then ?r ! j else 0)"
  proof (cases "0 < ?r ! j")
    case True
    then have first: "0 < row ! j" "\<forall>i<j. \<not> 0 < row ! i"
      using entry [OF j] by (auto split: if_splits)
    have "\<not> 0 < ?r ! k" if "k < j" for k
    proof -
      from that j have "k < length row" by simp
      from entry [OF this] first(2) that show ?thesis by simp
    qed
    with True show ?thesis by simp
  next
    case False
    moreover have "?r ! j = 0 \<or> 0 < ?r ! j"
      using entry [OF j] by (auto split: if_splits)
    ultimately show ?thesis by auto
  qed
  then show "first_positive_only ?r ! j = ?r ! j"
    using j by (simp add: first_positive_only_nth [of j ?r] list_all_take)
qed


lemma first_one_rectangular:
  assumes "\<forall>row\<in>set x. length row = n_columns_of x"
  shows "\<forall>row\<in>set (map first_positive_only x). length row = n_columns_of (map first_positive_only x)"
proof -
  have "n_columns_of (map first_positive_only x) = n_columns_of x"
    by (cases x) (simp_all add: n_columns_of_def)
  with assms show ?thesis by simp
qed

lemma first_positive_only_at_most_one:
  assumes "j < length row" and "j' < length row"
    and "first_positive_only row ! j \<noteq> 0" and "first_positive_only row ! j' \<noteq> 0"
  shows "j = j'"
proof -
  have pos: "0 < row ! j" "0 < row ! j'"
    and first: "\<forall>k<j. \<not> 0 < row ! k" "\<forall>k<j'. \<not> 0 < row ! k"
    using assms by (auto simp: first_positive_only_nth list_all_take split: if_splits)
  from pos first have "\<not> j' < j" and "\<not> j < j'" by auto
  then show ?thesis by simp
qed

lemma first_positive_only_no_positive:
  assumes "list_all (\<lambda>v. \<not> 0 < v) row"
  shows "first_positive_only row = replicate (length row) 0"
proof (rule nth_equalityI)
  show "length (first_positive_only row) = length (replicate (length row) (0::real))" by simp
next
  fix j assume "j < length (first_positive_only row)"
  then have j: "j < length row" by simp
  with assms have "\<not> 0 < row ! j" by (simp add: list_all_length)
  with j show "first_positive_only row ! j = replicate (length row) 0 ! j"
    by (simp add: first_positive_only_nth)
qed

text \<open>
  Claim C3. On every matrix (all rows of one length) the extractor keeps the shape; entry
  \<open>j\<close> of a row is the input's entry when that is strictly positive and no earlier entry
  of the row is, and zero otherwise; so a row has at most one nonzero entry, a row without
  a positive entry comes out all zero, and extracting twice is extracting once.
\<close>

theorem first_one_contract:
  assumes "\<forall>row\<in>set x. length row = n_columns_of x"
  shows "length (first_one x) = length x
    \<and> (\<forall>i<length x.
          length (first_one x ! i) = length (x ! i)
        \<and> (\<forall>j<length (x ! i). first_one x ! i ! j =
              (if 0 < x ! i ! j \<and> (\<forall>k<j. \<not> 0 < x ! i ! k) then x ! i ! j else 0))
        \<and> (\<forall>j<length (x ! i). \<forall>j'<length (x ! i).
              first_one x ! i ! j \<noteq> 0 \<and> first_one x ! i ! j' \<noteq> 0 \<longrightarrow> j = j')
        \<and> ((\<forall>j<length (x ! i). \<not> 0 < x ! i ! j) \<longrightarrow>
              first_one x ! i = replicate (length (x ! i)) 0))
    \<and> first_one (first_one x) = first_one x"
proof -
  have rows: "first_one x = map first_positive_only x"
    using assms by (simp add: first_one_rows first_one_row_eq)
  have idem: "first_one (first_one x) = first_one x"
    using first_one_rows [OF first_one_rectangular [OF assms]]
    by (simp add: rows first_one_row_eq first_positive_only_idem)
  have row: "length (first_one x ! i) = length (x ! i)
        \<and> (\<forall>j<length (x ! i). first_one x ! i ! j =
              (if 0 < x ! i ! j \<and> (\<forall>k<j. \<not> 0 < x ! i ! k) then x ! i ! j else 0))
        \<and> (\<forall>j<length (x ! i). \<forall>j'<length (x ! i).
              first_one x ! i ! j \<noteq> 0 \<and> first_one x ! i ! j' \<noteq> 0 \<longrightarrow> j = j')
        \<and> ((\<forall>j<length (x ! i). \<not> 0 < x ! i ! j) \<longrightarrow>
              first_one x ! i = replicate (length (x ! i)) 0)" if "i < length x" for i
  proof -
    have eq: "first_one x ! i = first_positive_only (x ! i)"
      using that by (simp add: rows)
    have "\<forall>j<length (x ! i). first_positive_only (x ! i) ! j =
              (if 0 < x ! i ! j \<and> (\<forall>k<j. \<not> 0 < x ! i ! k) then x ! i ! j else 0)"
      by (simp add: first_positive_only_nth list_all_take)
    moreover have "\<forall>j<length (x ! i). \<forall>j'<length (x ! i).
              first_positive_only (x ! i) ! j \<noteq> 0 \<and> first_positive_only (x ! i) ! j' \<noteq> 0 \<longrightarrow> j = j'"
      using first_positive_only_at_most_one by blast
    moreover have "(\<forall>j<length (x ! i). \<not> 0 < x ! i ! j) \<longrightarrow>
              first_positive_only (x ! i) = replicate (length (x ! i)) 0"
      using first_positive_only_no_positive [of "x ! i"] by (simp add: list_all_length)
    ultimately show ?thesis
      unfolding eq by simp
  qed
  show ?thesis
    using row idem by (simp add: rows)
qed

theorem first_one_contract_witness:
  "first_one [[0, 0, 3, 0, 0, 7], [0, -1, 0, 0, 0, 0]] = [[0, 0, 3, 0, 0, 0], [0, 0, 0, 0, 0, 0]]
   \<and> first_one (first_one [[0, 0, 3, 0, 0, 7], [0, -1, 0, 0, 0, 0]])
       = first_one [[0, 0, 3, 0, 0, 7], [0, -1, 0, 0, 0, 0]]"
proof -
  let ?x = "[[0, 0, 3, 0, 0, 7], [0, -1, 0, 0, 0, 0 :: real]]"
  have rect: "\<forall>row\<in>set ?x. length row = n_columns_of ?x"
    by (simp add: n_columns_of_def)
  have "first_one ?x = [[0, 0, 3, 0, 0, 0], [0, 0, 0, 0, 0, 0]]"
    by (simp add: first_one_def n_columns_of_def cumprod_def Let_def)
  moreover have "first_one (first_one ?x) = first_one ?x"
    using first_one_contract [OF rect] by blast
  ultimately show ?thesis by blast
qed

subsection \<open>ridge\_regression\<close>

lemma length_ridge_regression [simp]: "length (ridge_regression lstsq X Y lam) = length X"
  by (simp add: ridge_regression_def matvec_def)

lemma scalar_objective: "ridge_objective [[1]] [1] lam [z] = (z - 1)\<^sup>2 + lam * z\<^sup>2"
  by (simp add: ridge_objective_def)

lemma scalar_minimiser_100:
  "ridge_objective [[1]] [1] 100 [1 / 101] \<le> ridge_objective [[1]] [1] 100 [z]"
proof -
  have "ridge_objective [[1]] [1] 100 [z] - ridge_objective [[1]] [1] 100 [1 / 101]
          = 101 * (z - 1 / 101)\<^sup>2"
    by (simp add: scalar_objective power2_eq_square algebra_simps)
  moreover have "0 \<le> 101 * (z - 1 / 101)\<^sup>2" by simp
  ultimately show ?thesis by linarith
qed

lemma scalar_minimiser_100_unique:
  assumes "\<forall>z. ridge_objective [[1]] [1] 100 [b] \<le> ridge_objective [[1]] [1] 100 [z]"
  shows "b = 1 / 101"
proof -
  have "ridge_objective [[1]] [1] 100 [b] - ridge_objective [[1]] [1] 100 [1 / 101]
          = 101 * (b - 1 / 101)\<^sup>2"
    by (simp add: scalar_objective power2_eq_square algebra_simps)
  moreover from assms have "ridge_objective [[1]] [1] 100 [b] \<le> ridge_objective [[1]] [1] 100 [1 / 101]"
    by blast
  ultimately have "101 * (b - 1 / 101)\<^sup>2 \<le> 0" by linarith
  then have "(b - 1 / 101)\<^sup>2 \<le> 0" by simp
  then have "b - 1 / 101 = 0" by (simp only: power2_less_eq_zero_iff)
  then show ?thesis by simp
qed

text \<open>
  Claim C4 at the failing input \<open>X = [[1]]\<close>, \<open>Y = [1]\<close>, \<open>\<lambda> = 0\<close>. Whatever penalty the caller
  passes, the function hands 100 to the solver: with a solver that returns the minimiser
  of the objective for the regulariser it is given, the fitted value is \<open>1/101\<close>, which
  does not minimise the objective for the caller's \<open>\<lambda> = 0\<close> (that minimiser is \<open>1\<close>); and for
  every input the result is the one for \<open>\<lambda> = 100\<close>.
\<close>

theorem ridge_regression_ignores_penalty:
  assumes "lstsq [[Fin 1]] [1] 100 = [Fin b]"
    and "\<forall>z. ridge_objective [[1]] [1] 100 [b] \<le> ridge_objective [[1]] [1] 100 [z]"
  shows "ridge_regression lstsq [[Fin 1]] [1] 0 = [Fin (1 / 101)]
       \<and> ridge_objective [[1]] [1] 0 [1] < ridge_objective [[1]] [1] 0 [1 / 101]
       \<and> ridge_regression lstsq X Y lam = ridge_regression lstsq X Y 100"
proof -
  have b: "b = 1 / 101" using assms(2) by (rule scalar_minimiser_100_unique)
  have "ridge_regression lstsq [[Fin 1]] [1] 0 = [Fin (1 / 101)]"
    by (simp add: ridge_regression_def matvec_def dot_def assms(1) b)
  moreover have "ridge_objective [[1]] [1] 0 [1] < ridge_objective [[1]] [1] 0 [1 / 101]"
    by (simp add: scalar_objective power2_eq_square)
  moreover have "ridge_regression lstsq X Y lam = ridge_regression lstsq X Y 100"
    by (simp add: ridge_regression_def)
  ultimately show ?thesis by blast
qed

theorem ridge_regression_ignores_penalty_witness:
  "ridge_regression (\<lambda>X Y l. [Fin (1 / 101)]) [[Fin 1]] [1] 0 = [Fin (1 / 101)]
   \<and> ridge_objective [[1]] [1] 0 [1] < ridge_objective [[1]] [1] 0 [1 / 101]"
proof -
  have "\<forall>z. ridge_objective [[1]] [1] 100 [1 / 101] \<le> ridge_objective [[1]] [1] 100 [z]"
    using scalar_minimiser_100 by blast
  from ridge_regression_ignores_penalty [of "\<lambda>X Y l. [Fin (1 / 101)]" "1 / 101", OF refl this]
  show ?thesis by blast
qed

subsection \<open>Float64 rounding\<close>

lemma rint_of_int [simp]: "rint (of_int z) = z"
  by (simp add: rint_def)

lemma rint_numeral [simp]: "rint (numeral k) = numeral k"
  using rint_of_int [of "numeral k"] by simp

lemma rint_zero [simp]: "rint 0 = 0"
  using rint_of_int [of 0] by simp

lemma rint_one [simp]: "rint 1 = 1"
  using rint_of_int [of 1] by simp

lemma rint_minus: "rint (- y) = - rint y"
proof (cases "y = of_int \<lfloor>y\<rfloor>")
  case True
  then obtain z :: int where "y = of_int z" ..
  then have "rint y = z" and "rint (- y) = - z"
    using rint_of_int [of z] rint_of_int [of "- z"] by simp_all
  then show ?thesis by simp
next
  case False
  define f where "f = \<lfloor>y\<rfloor>"
  define d where "d = y - of_int f"
  have "of_int f \<le> y" and "y < of_int f + 1"
    unfolding f_def by linarith+
  with False have d: "0 < d" "d < 1"
    unfolding d_def f_def by linarith+
  have y: "y = of_int f + d" by (simp add: d_def)
  have fl: "\<lfloor>- y\<rfloor> = - f - 1"
    using d unfolding y by (intro floor_unique) simp_all
  have frac: "- y - of_int (- f - 1) = 1 - d"
    by (simp add: y)
  have pos: "rint y = (if d < 1 / 2 then f else if 1 / 2 < d then f + 1
                       else if even f then f else f + 1)"
    unfolding rint_def Let_def f_def [symmetric] d_def [symmetric] by (rule refl)
  have neg: "rint (- y) = (if 1 - d < 1 / 2 then - f - 1 else if 1 / 2 < 1 - d then - f - 1 + 1
                           else if even (- f - 1) then - f - 1 else - f - 1 + 1)"
    unfolding rint_def Let_def fl frac by (rule refl)
  consider "d < 1 / 2" | "1 / 2 < d" | "d = 1 / 2" by linarith
  then show ?thesis
  proof cases
    case 1
    then show ?thesis unfolding pos neg by simp
  next
    case 2
    then show ?thesis unfolding pos neg by simp
  next
    case 3
    then show ?thesis unfolding pos neg by simp
  qed
qed

lemma binary64_zero [simp]: "binary64 0 = 0"
  by (simp add: binary64_def)

lemma normalise_scale:
  "normalise n x e = (y, k) \<Longrightarrow> y * 2 powr of_int k = x * 2 powr of_int e"
proof (induction n arbitrary: x e)
  case 0
  then show ?case by simp
next
  case (Suc n)
  show ?case
  proof (cases "x < 2 ^ 52")
    case True
    with Suc.prems have "normalise n (2 * x) (e - 1) = (y, k)" by simp
    then have "y * 2 powr of_int k = 2 * x * 2 powr of_int (e - 1)"
      by (rule Suc.IH)
    also have "\<dots> = x * 2 powr of_int e"
      by (simp add: powr_diff)
    finally show ?thesis .
  next
    case False
    show ?thesis
    proof (cases "(2::real) ^ 53 \<le> x")
      case True
      with False Suc.prems have "normalise n (x / 2) (e + 1) = (y, k)" by simp
      then have "y * 2 powr of_int k = x / 2 * 2 powr of_int (e + 1)"
        by (rule Suc.IH)
      also have "\<dots> = x * 2 powr of_int e"
        by (simp add: powr_add)
      finally show ?thesis .
    next
      case notbig: False
      with False Suc.prems show ?thesis by simp
    qed
  qed
qed

lemma powr_of_int_cases:
  "(2::real) powr of_int e = (if 0 \<le> e then 2 ^ nat e else 1 / 2 ^ nat (- e))"
proof (cases "0 \<le> e")
  case True
  then have "(2::real) powr of_int e = 2 powr real (nat e)" by simp
  also have "\<dots> = 2 ^ nat e" by (simp only: powr_realpow zero_less_numeral)
  finally show ?thesis using True by simp
next
  case False
  then have "(2::real) powr of_int e = 2 powr (- real (nat (- e)))" by simp
  also have "\<dots> = 1 / 2 powr real (nat (- e))" by (simp only: powr_minus_divide)
  also have "\<dots> = 1 / 2 ^ nat (- e)" by (simp only: powr_realpow zero_less_numeral)
  finally show ?thesis using False by simp
qed

lemma binary64_scaled:
  assumes "0 < x" and "normalise n x 0 = (y, e)" and "2 ^ 52 \<le> y" and "y < 2 ^ 53"
  shows "binary64 x = of_int (rint y) * 2 powr of_int e"
    and "binary64 (- x) = - (of_int (rint y) * 2 powr of_int e)"
proof -
  have scale: "y * 2 powr of_int e = x"
    using normalise_scale [OF assms(2)] by simp
  have y: "0 < y" using assms(3) by (rule less_le_trans [rotated]) simp
  have "log 2 x = log 2 y + of_int e"
    using y by (simp add: scale [symmetric] log_mult)
  moreover have "52 \<le> log 2 y"
    using assms(3) y by (simp add: le_log_iff powr_realpow [symmetric])
  moreover have "log 2 y < 53"
    using assms(4) y by (simp add: log_less_iff powr_realpow [symmetric])
  ultimately have "\<lfloor>log 2 x\<rfloor> = 52 + e"
    by (intro floor_unique) simp_all
  then have ulp: "\<lfloor>log 2 \<bar>x\<bar>\<rfloor> - 52 = e" "\<lfloor>log 2 \<bar>- x\<bar>\<rfloor> - 52 = e"
    using assms(1) by simp_all
  have quot: "x / 2 powr of_int e = y"
    by (simp add: scale [symmetric])
  show "binary64 x = of_int (rint y) * 2 powr of_int e"
    unfolding binary64_def Let_def ulp(1) quot using assms(1) by simp
  have quot': "- x / 2 powr of_int e = - y"
    by (simp add: scale [symmetric])
  show "binary64 (- x) = - (of_int (rint y) * 2 powr of_int e)"
    unfolding binary64_def Let_def ulp(2) quot' rint_minus using assms(1) by simp
qed

lemma binary64_round_scaled:
  assumes "in_range n x"
  shows "binary64 x = round_scaled n x"
proof -
  obtain y e where norm: "normalise n \<bar>x\<bar> 0 = (y, e)" by (cases "normalise n \<bar>x\<bar> 0")
  with assms have x: "x \<noteq> 0" and y: "2 ^ 52 \<le> y" "y < 2 ^ 53"
    by (simp_all add: in_range_def)
  then have pos: "0 < \<bar>x\<bar>" by simp
  note scaled = binary64_scaled [OF pos norm y]
  show ?thesis
  proof (cases "0 < x")
    case True
    then have "\<bar>x\<bar> = x" and "sgn x = 1" by simp_all
    with scaled(1) show ?thesis
      unfolding round_scaled_def norm prod.case powr_of_int_cases by simp
  next
    case False
    with x have "x < 0" by simp
    then have "- \<bar>x\<bar> = x" and "sgn x = - 1" by simp_all
    with scaled(2) show ?thesis
      unfolding round_scaled_def norm prod.case powr_of_int_cases by simp
  qed
qed

lemma normalise_numeral:
  "normalise (numeral k) x e =
     (if x < 2 ^ 52 then normalise (pred_numeral k) (2 * x) (e - 1)
      else if 2 ^ 53 \<le> x then normalise (pred_numeral k) (x / 2) (e + 1)
      else (x, e))"
  by (simp add: numeral_eq_Suc)

text \<open>
  The rules that evaluate \<open>binary64\<close> and \<open>np.round\<close> on numbers: 1100 steps of scaling
  bring every number of the normal range of the doubles into \<open>[2^52, 2^53)\<close>.
\<close>

lemmas float_eval =
  binary64_round_scaled [of 1100] in_range_def round_scaled_def normalise_numeral
  normalise.simps(1) rint_def np_round_def Let_def

lemma t_span_of_keys:
  assumes "length (t_span_of p) = m"
  shows "t_span_of p = map (time_key p) [1..<Suc m]"
proof (rule nth_equalityI)
  show "length (t_span_of p) = length (map (time_key p) [1..<Suc m])"
    using assms by simp
next
  fix i assume "i < length (t_span_of p)"
  with assms have i: "i < m" by simp
  then have "[1..<Suc m] ! i = Suc i"
    by (simp del: upt_Suc)
  with i show "t_span_of p ! i = map (time_key p) [1..<Suc m] ! i"
    by (simp add: time_key_def del: upt_Suc)
qed

lemma time_key_zero [simp]: "time_key p 0 = 0"
  by (simp add: time_key_def)

lemma keys_aligned_arange:
  assumes "keys_aligned p" and "1 \<le> p_m p"
  shows "\<exists>ticks. arange (dt_of p) (binary64 (p_T p + dt_of p)) (dt_of p) = Inr ticks
           \<and> map (\<lambda>t. np_round t 6) ticks = map (time_key p) [1..<Suc (p_m p)]"
proof -
  from assms(1) have len: "length (t_span_of p) = p_m p"
    unfolding keys_aligned_def by (elim conjE)
  show ?thesis
  proof (cases "arange (dt_of p) (binary64 (p_T p + dt_of p)) (dt_of p)")
    case (Inl e)
    then have "t_span_of p = []" by (simp add: t_span_of_def)
    with len assms(2) show ?thesis by simp
  next
    case (Inr ticks)
    then have "map (\<lambda>t. np_round t 6) ticks = t_span_of p"
      by (simp add: t_span_of_def)
    with t_span_of_keys [OF len] Inr show ?thesis by simp
  qed
qed

lemma keys_aligned_inj:
  assumes "keys_aligned p"
  shows "inj_on (time_key p) {0..p_m p}"
proof -
  from assms have "distinct (map (time_key p) [0..<Suc (p_m p)])"
    unfolding keys_aligned_def by (elim conjE)
  then have "inj_on (time_key p) (set [0..<Suc (p_m p)])"
    by (simp only: distinct_map)
  moreover have "set [0..<Suc (p_m p)] = {0..p_m p}"
    by auto
  ultimately show ?thesis by (simp only:)
qed

lemma keys_aligned_previous:
  assumes "keys_aligned p" and "1 \<le> i" and "i \<le> p_m p"
  shows "np_round (binary64 (time_key p i - dt_of p)) 6 = time_key p (i - 1)"
proof -
  from assms(1) have "list_all (\<lambda>i. np_round (binary64 (time_key p i - dt_of p)) 6
                                      = time_key p (i - 1)) [1..<Suc (p_m p)]"
    unfolding keys_aligned_def by (elim conjE)
  moreover from assms(2,3) have "i \<in> set [1..<Suc (p_m p)]" by auto
  ultimately show ?thesis
    by (simp only: list_all_iff)
qed

lemma keys_aligned_next:
  assumes "keys_aligned p" and "1 \<le> i" and "i < p_m p"
  shows "np_round (binary64 (time_key p i + dt_of p)) 6 = time_key p (i + 1)"
proof -
  from assms(1) have "list_all (\<lambda>i. np_round (binary64 (time_key p i + dt_of p)) 6
                                      = time_key p (i + 1)) [1..<p_m p]"
    unfolding keys_aligned_def by (elim conjE)
  moreover from assms(2,3) have "i \<in> set [1..<p_m p]" by auto
  ultimately show ?thesis
    by (simp only: list_all_iff)
qed

lemma keys_aligned_maturity:
  "keys_aligned p \<Longrightarrow> time_key p (p_m p) = p_T p"
  unfolding keys_aligned_def by (elim conjE)

subsection \<open>The run of the pricing cell in closed form\<close>

lemma dict_set_map_keys:
  assumes "k \<notin> set ks" and "v = f k"
  shows "dict_set (map (\<lambda>t. (t, f t)) ks) k v = map (\<lambda>t. (t, f t)) (ks @ [k])"
  using assms by (subst dict_set_append) (auto simp: image_iff)

lemma comprehension_loop_closed:
  assumes "\<And>t. t \<in> set ts \<Longrightarrow> f t = Inr (g t)" and "distinct (ks @ ts)"
  shows "comprehension_loop f ts (map (\<lambda>t. (t, g t)) ks) = Inr (map (\<lambda>t. (t, g t)) (ks @ ts))"
  using assms
proof (induction ts arbitrary: ks)
  case Nil
  then show ?case by simp
next
  case (Cons t ts)
  have "dict_set (map (\<lambda>t. (t, g t)) ks) t (g t) = map (\<lambda>t. (t, g t)) (ks @ [t])"
    using Cons.prems(2) by (intro dict_set_map_keys) simp_all
  moreover have "comprehension_loop f ts (map (\<lambda>t. (t, g t)) (ks @ [t]))
                   = Inr (map (\<lambda>t. (t, g t)) ((ks @ [t]) @ ts))"
    using Cons.prems by (intro Cons.IH) simp_all
  ultimately show ?case
    using Cons.prems(1) [of t] by simp
qed

lemma dict_comprehension_closed:
  assumes "\<And>t. t \<in> set ts \<Longrightarrow> f t = Inr (g t)" and "distinct ts"
  shows "dict_comprehension f ts = Inr (map (\<lambda>t. (t, g t)) ts)"
  using comprehension_loop_closed [of ts f g "[]"] assms by (simp add: dict_comprehension_def)

text \<open>Dicts whose keys are the images of the steps under an injective key function.\<close>

lemma map_of_keyed:
  assumes "inj_on k (insert j (set js))"
  shows "map_of (map (\<lambda>i. (k i, f i)) js) (k j) = (if j \<in> set js then Some (f j) else None)"
  using assms
proof (induction js)
  case Nil
  then show ?case by simp
next
  case (Cons a js)
  have sub: "insert j (set js) \<subseteq> insert j (set (a # js))" by auto
  have IH: "map_of (map (\<lambda>i. (k i, f i)) js) (k j) = (if j \<in> set js then Some (f j) else None)"
    by (rule Cons.IH) (rule inj_on_subset [OF Cons.prems sub])
  have eq: "k j = k a \<longleftrightarrow> j = a"
    using Cons.prems by (auto simp: inj_on_def)
  show ?case
    using IH eq by auto
qed

lemma dict_get_keyed:
  assumes "inj_on k A" and "j \<in> A" and "set js \<subseteq> A"
  shows "dict_get (map (\<lambda>i. (k i, f i)) js) (k j)
           = (if j \<in> set js then Inr (f j) else Inl KeyError)"
proof -
  from assms(2,3) have "insert j (set js) \<subseteq> A" by simp
  then have "inj_on k (insert j (set js))"
    by (rule inj_on_subset [OF assms(1)])
  then show ?thesis
    by (simp add: dict_get_def map_of_keyed)
qed

lemma dict_set_keyed:
  assumes "inj_on k A" and "j \<in> A" and "set js \<subseteq> A" and "j \<notin> set js" and "v = f j"
  shows "dict_set (map (\<lambda>i. (k i, f i)) js) (k j) v = map (\<lambda>i. (k i, f i)) (js @ [j])"
proof -
  have "k j \<notin> k ` set js"
  proof
    assume "k j \<in> k ` set js"
    then obtain i where i: "i \<in> set js" and "k j = k i" by auto
    with assms(1,2,3) have "j = i" by (auto simp: inj_on_def)
    with i assms(4) show False by simp
  qed
  then have "k j \<notin> fst ` set (map (\<lambda>i. (k i, f i)) js)"
    by (simp add: image_image)
  then show ?thesis
    by (simp add: dict_set_append assms(5))
qed

lemma comprehension_loop_keyed:
  assumes "\<And>i. i \<in> set ts \<Longrightarrow> F (k i) = Inr (g i)" and "distinct (ks @ ts)"
    and "inj_on k A" and "set (ks @ ts) \<subseteq> A"
  shows "comprehension_loop F (map k ts) (map (\<lambda>i. (k i, g i)) ks)
           = Inr (map (\<lambda>i. (k i, g i)) (ks @ ts))"
  using assms(1,2,4)
proof (induction ts arbitrary: ks)
  case Nil
  then show ?case by simp
next
  case (Cons t ts)
  have "dict_set (map (\<lambda>i. (k i, g i)) ks) (k t) (g t) = map (\<lambda>i. (k i, g i)) (ks @ [t])"
    using Cons.prems(2,3) by (intro dict_set_keyed [OF assms(3)]) auto
  moreover have "comprehension_loop F (map k ts) (map (\<lambda>i. (k i, g i)) (ks @ [t]))
                   = Inr (map (\<lambda>i. (k i, g i)) ((ks @ [t]) @ ts))"
    using Cons.prems by (intro Cons.IH) simp_all
  ultimately show ?case
    using Cons.prems(1) [of t] by simp
qed

lemma dict_comprehension_keyed:
  assumes "\<And>i. i \<in> set ts \<Longrightarrow> F (k i) = Inr (g i)" and "distinct ts"
    and "inj_on k A" and "set ts \<subseteq> A"
  shows "dict_comprehension F (map k ts) = Inr (map (\<lambda>i. (k i, g i)) ts)"
  using comprehension_loop_keyed [of ts F k g "[]" A] assms by (simp add: dict_comprehension_def)

lemma simulate_closed:
  assumes step: "\<And>t. f (Suc t) = advance r sigma dt n (Z (Suc t)) (f t)"
    and inj: "inj_on k {0..m}"
    and prev: "\<And>i. 1 \<le> i \<Longrightarrow> i \<le> m \<Longrightarrow> np_round (binary64 (k i - dt)) 6 = k (i - 1)"
    and "1 \<le> j" and "j \<le> Suc m"
  shows "simulate r sigma dt n Z j (map k [j..<Suc m]) (map (\<lambda>t. (k t, f t)) [0..<j])
           = Inr (map (\<lambda>t. (k t, f t)) [0..<Suc m])"
  using assms(4,5)
proof (induction "Suc m - j" arbitrary: j)
  case 0
  then show ?case by simp
next
  case (Suc d)
  then have lt: "j < Suc m" by simp
  define S where "S = map (\<lambda>t. (k t, f t)) [0..<j]"
  have key: "np_round (binary64 (k j - dt)) 6 = k (j - 1)"
    using Suc.prems(1) lt by (intro prev) simp_all
  have prev_S: "dict_get S (k (j - 1)) = Inr (f (j - 1))"
    unfolding S_def using Suc.prems(1) lt
    by (subst dict_get_keyed [OF inj]) auto
  have fj: "advance r sigma dt n (Z j) (f (j - 1)) = f j"
    using Suc.prems(1) step [of "j - 1"] by simp
  have set: "dict_set S (k j) (f j) = map (\<lambda>t. (k t, f t)) [0..<Suc j]"
    unfolding S_def using lt
    by (subst dict_set_keyed [OF inj, where f = f]) auto
  have "simulate r sigma dt n Z j (map k [j..<Suc m]) S
          = simulate r sigma dt n Z j (k j # map k [Suc j..<Suc m]) S"
    using lt by (simp only: upt_conv_Cons list.map)
  also have "\<dots> = simulate r sigma dt n Z (Suc j) (map k [Suc j..<Suc m])
                     (map (\<lambda>t. (k t, f t)) [0..<Suc j])"
    using prev_S fj by (simp add: key set Let_def del: upt_Suc)
  also have "\<dots> = Inr (map (\<lambda>t. (k t, f t)) [0..<Suc m])"
    using Suc.hyps(2) Suc.prems lt by (intro Suc.hyps(1)) simp_all
  finally show ?case by (simp only: S_def)
qed

lemma chebyshev_basis_matrix: "chebyshev_basis x k = Inr (cheb_matrix x k)"
  by (simp only: chebyshev_basis_columns cheb_matrix_def)

lemma rev_upt_from: "j < n \<Longrightarrow> rev [j..<n] = rev [Suc j..<n] @ [j]"
  by (simp add: upt_conv_Cons)

lemma backward_loop_closed:
  fixes V :: "nat \<Rightarrow> real list" and C :: "nat \<Rightarrow> tfloat list"
  assumes S: "\<And>t. 1 \<le> t \<Longrightarrow> t < m \<Longrightarrow> dict_get S (k t) = Inr (Sv t)"
    and cash: "\<And>t. 1 \<le> t \<Longrightarrow> t < m \<Longrightarrow> dict_get cashflow (k t) = Inr (cf t)"
    and cont: "\<And>t. 1 \<le> t \<Longrightarrow> t < m \<Longrightarrow>
                 C t = ridge_regression lstsq (cheb_matrix (scale (Sv t)) order) (V (Suc t)) 100"
    and val: "\<And>t. 1 \<le> t \<Longrightarrow> t < m \<Longrightarrow>
                 V t = map (\<lambda>v. discount * v)
                         (tf_where (map2 (\<lambda>c q. tgreater (Fin c) q) (cf t) (C t)) (cf t) (V (Suc t)))"
    and inj: "inj_on k {0..m}"
    and nxt: "\<And>t. 1 \<le> t \<Longrightarrow> t < m \<Longrightarrow> np_round (binary64 (k t + dt)) 6 = k (Suc t)"
    and "1 \<le> j" and "j \<le> m"
  shows "backward_loop lstsq order dt discount S cashflow (map k (rev [1..<j]))
           (map (\<lambda>t. (k t, V t)) (rev [j..<Suc m]), map (\<lambda>t. (k t, C t)) (rev [j..<Suc m]))
         = Inr (map (\<lambda>t. (k t, V t)) (rev [1..<Suc m]), map (\<lambda>t. (k t, C t)) (rev [1..<Suc m]))"
  using assms(7,8)
proof (induction j)
  case 0
  then show ?case by simp
next
  case (Suc t)
  show ?case
  proof (cases "t = 0")
    case True
    then show ?thesis by simp
  next
    case False
    then have t: "1 \<le> t" "t < m" "t \<le> m" using Suc.prems by simp_all
    define vd where "vd = map (\<lambda>t. (k t, V t)) (rev [Suc t..<Suc m])"
    define cd where "cd = map (\<lambda>t. (k t, C t)) (rev [Suc t..<Suc m])"
    have rev_t: "rev [t..<Suc m] = rev [Suc t..<Suc m] @ [t]"
      using t by (intro rev_upt_from) simp
    have next_value: "dict_get vd (k (Suc t)) = Inr (V (Suc t))"
      unfolding vd_def using t
      by (subst dict_get_keyed [OF inj]) auto
    have cont': "dict_set cd (k t) (C t) = map (\<lambda>t. (k t, C t)) (rev [t..<Suc m])"
      unfolding cd_def rev_t using t
      by (intro dict_set_keyed [OF inj]) auto
    have get_cont: "dict_get (map (\<lambda>t. (k t, C t)) (rev [t..<Suc m])) (k t) = Inr (C t)"
      using t by (subst dict_get_keyed [OF inj]) auto
    have val': "dict_set vd (k t) (V t) = map (\<lambda>t. (k t, V t)) (rev [t..<Suc m])"
      unfolding vd_def rev_t using t
      by (intro dict_set_keyed [OF inj]) auto
    have "backward_loop lstsq order dt discount S cashflow (map k (rev [1..<Suc t])) (vd, cd)
            = backward_loop lstsq order dt discount S cashflow (k t # map k (rev [1..<t])) (vd, cd)"
      using t by simp
    also have "\<dots> = backward_loop lstsq order dt discount S cashflow (map k (rev [1..<t]))
                       (map (\<lambda>t. (k t, V t)) (rev [t..<Suc m]), map (\<lambda>t. (k t, C t)) (rev [t..<Suc m]))"
      using S [OF t(1,2)] cash [OF t(1,2)] next_value get_cont
            cont [OF t(1,2), symmetric] val [OF t(1,2), symmetric]
      by (simp add: Let_def chebyshev_basis_matrix cont' val' nxt [OF t(1,2)] del: upt_Suc)
    also have "\<dots> = Inr (map (\<lambda>t. (k t, V t)) (rev [1..<Suc m]), map (\<lambda>t. (k t, C t)) (rev [1..<Suc m]))"
      using t by (intro Suc.IH) simp_all
    finally show ?thesis by (simp only: vd_def cd_def)
  qed
qed

lemma length_S_at [simp]: "length (S_at p Z t) = p_n p"
  by (induction t) (simp_all add: advance_def)

lemma length_cashflow_at [simp]: "length (cashflow_at p Z t) = p_n p"
  by (simp add: cashflow_at_def)

lemma length_tf_where [simp]:
  "length (tf_where c a b) = min (length c) (min (length a) (length b))"
  by (simp add: tf_where_def)

lemma length_stack_axis1:
  assumes "cols \<noteq> []" and "\<And>c. c \<in> set cols \<Longrightarrow> length c = n"
  shows "stack_axis1 cols = map (\<lambda>i. map (\<lambda>c. c ! i) cols) [0..<n]"
proof -
  have "transpose cols = map (\<lambda>i. map (\<lambda>j. cols ! j ! i) [0..<length cols]) [0..<n]"
    using assms by (intro transpose_rectangle) simp_all
  moreover have "map (\<lambda>j. cols ! j ! i) [0..<length cols] = map (\<lambda>c. c ! i) cols" for i
    by (rule nth_equalityI) simp_all
  ultimately show ?thesis by (simp add: stack_axis1_def)
qed

lemma length_scale [simp]: "length (scale x) = length x"
  by (simp add: scale_def Let_def)

lemma length_cheb_matrix [simp]: "length (cheb_matrix x k) = length x"
proof -
  have "stack_axis1 (map (cheb_col x) [0..<max k 2])
          = map (\<lambda>i. map (\<lambda>c. c ! i) (map (cheb_col x) [0..<max k 2])) [0..<length x]"
    by (rule length_stack_axis1) auto
  then show ?thesis by (simp add: cheb_matrix_def)
qed

lemma length_back_at:
  "length (fst (back_at lstsq p Z d)) = p_n p \<and> length (snd (back_at lstsq p Z d)) = p_n p"
  by (induction d) (simp_all add: Let_def)

lemma length_value_at [simp]: "length (value_at lstsq p Z t) = p_n p"
  by (simp add: value_at_def length_back_at)

lemma length_continuation_at [simp]: "length (continuation_at lstsq p Z t) = p_n p"
  by (simp add: continuation_at_def length_back_at)

lemma length_payoff_at [simp]: "length (payoff_at lstsq p Z t) = p_n p"
  by (simp add: payoff_at_def)

lemma value_at_maturity:
  "value_at lstsq p Z (p_m p) = map (\<lambda>c. c * discount_of p) (cashflow_at p Z (p_m p))"
  by (simp add: value_at_def)

lemma continuation_at_maturity:
  "continuation_at lstsq p Z (p_m p) = replicate (p_n p) (Fin 0)"
  by (simp add: continuation_at_def)

lemma back_at_step:
  assumes "t < p_m p"
  shows "back_at lstsq p Z (p_m p - t) =
     (let value_next = fst (back_at lstsq p Z (p_m p - Suc t));
          continuation_t =
            ridge_regression lstsq (cheb_matrix (scale (S_at p Z t)) (p_order p)) value_next 100
      in (map (\<lambda>v. discount_of p * v)
            (tf_where (map2 (\<lambda>c q. tgreater (Fin c) q) (cashflow_at p Z t) continuation_t)
               (cashflow_at p Z t) value_next),
          continuation_t))"
proof -
  from assms have "p_m p - t = Suc (p_m p - Suc t)" and "p_m p - Suc (p_m p - Suc t) = t"
    by simp_all
  then show ?thesis by simp
qed

lemma continuation_at_step:
  assumes "t < p_m p"
  shows "continuation_at lstsq p Z t =
     ridge_regression lstsq (cheb_matrix (scale (S_at p Z t)) (p_order p))
       (value_at lstsq p Z (Suc t)) 100"
  by (simp add: continuation_at_def value_at_def back_at_step [OF assms] Let_def)

lemma value_at_step:
  assumes "t < p_m p"
  shows "value_at lstsq p Z t =
     map (\<lambda>v. discount_of p * v)
       (tf_where (map2 (\<lambda>c q. tgreater (Fin c) q) (cashflow_at p Z t) (continuation_at lstsq p Z t))
          (cashflow_at p Z t) (value_at lstsq p Z (Suc t)))"
  by (simp add: continuation_at_def value_at_def back_at_step [OF assms] Let_def)

lemma map2_plus_nth:
  assumes "length v = n" and "length w = n"
  shows "map2 (+) v w = map (\<lambda>j. v ! j + w ! j) [0..<n]"
  using assms by (intro nth_equalityI) simp_all

lemma fold_add_vectors:
  fixes v :: "real list"
  assumes "length v = n" and "\<And>w. w \<in> set vs \<Longrightarrow> length w = n"
  shows "fold (\<lambda>w acc. map2 (+) acc w) vs v = map (\<lambda>j. v ! j + (\<Sum>w\<leftarrow>vs. w ! j)) [0..<n]"
  using assms
proof (induction vs arbitrary: v)
  case Nil
  then show ?case by (intro nth_equalityI) simp_all
next
  case (Cons w ws)
  have step: "map2 (+) v w = map (\<lambda>j. v ! j + w ! j) [0..<n]"
    using Cons.prems by (intro map2_plus_nth) simp_all
  have "fold (\<lambda>w acc. map2 (+) acc w) ws (map2 (+) v w)
          = map (\<lambda>j. map2 (+) v w ! j + (\<Sum>w\<leftarrow>ws. w ! j)) [0..<n]"
    using Cons.prems by (intro Cons.IH) simp_all
  also have "\<dots> = map (\<lambda>j. v ! j + (\<Sum>w\<leftarrow>w # ws. w ! j)) [0..<n]"
    by (rule map_cong [OF refl]) (simp add: step)
  finally show ?case by simp
qed

lemma add_n_closed:
  assumes "vs \<noteq> []" and "\<And>w. w \<in> set vs \<Longrightarrow> length w = n"
  shows "add_n vs = Inr (map (\<lambda>j. \<Sum>w\<leftarrow>vs. w ! j) [0..<n])"
proof -
  from assms(1) obtain v ws where vs: "vs = v # ws" by (cases vs) auto
  have "fold (\<lambda>w acc. map2 (+) acc w) ws v = map (\<lambda>j. v ! j + (\<Sum>w\<leftarrow>ws. w ! j)) [0..<n]"
    using assms(2) by (intro fold_add_vectors) (simp_all add: vs)
  then show ?thesis by (simp add: vs)
qed

lemma payoff_matrix_rows:
  assumes "1 \<le> p_m p"
  shows "payoff_matrix_at lstsq p Z
           = map (\<lambda>j. map (\<lambda>t. payoff_at lstsq p Z t ! j) [1..<Suc (p_m p)]) [0..<p_n p]"
proof -
  have "stack_axis1 (map (payoff_at lstsq p Z) [1..<Suc (p_m p)])
          = map (\<lambda>j. map (\<lambda>c. c ! j) (map (payoff_at lstsq p Z) [1..<Suc (p_m p)])) [0..<p_n p]"
    using assms by (intro length_stack_axis1) auto
  then show ?thesis by (simp add: payoff_matrix_at_def comp_def del: upt_Suc)
qed

lemma payoff_matrix_shape:
  assumes "1 \<le> p_m p"
  shows "length (payoff_matrix_at lstsq p Z) = p_n p"
    and "\<And>row. row \<in> set (payoff_matrix_at lstsq p Z) \<Longrightarrow> length row = p_m p"
  by (auto simp: payoff_matrix_rows [OF assms] simp del: upt_Suc)

lemma payoff_matrix_rectangular:
  assumes "1 \<le> p_m p"
  shows "\<forall>row\<in>set (payoff_matrix_at lstsq p Z). length row = n_columns_of (payoff_matrix_at lstsq p Z)"
proof (cases "payoff_matrix_at lstsq p Z")
  case Nil
  then show ?thesis by simp
next
  case (Cons row rows)
  then have "row \<in> set (payoff_matrix_at lstsq p Z)" by simp
  then have "length row = p_m p" by (rule payoff_matrix_shape(2) [OF assms])
  with Cons have "n_columns_of (payoff_matrix_at lstsq p Z) = p_m p"
    by (simp add: n_columns_of_def)
  then show ?thesis
    using payoff_matrix_shape(2) [OF assms] by simp
qed

lemma first_payoff_rows:
  assumes "1 \<le> p_m p"
  shows "first_one (payoff_matrix_at lstsq p Z) = map first_positive_only (payoff_matrix_at lstsq p Z)"
  using first_one_rows [OF payoff_matrix_rectangular [OF assms]]
  by (simp add: first_one_row_eq)

lemma first_payoff_shape:
  assumes "1 \<le> p_m p"
  shows "length (first_one (payoff_matrix_at lstsq p Z)) = p_n p"
    and "\<And>row. row \<in> set (first_one (payoff_matrix_at lstsq p Z)) \<Longrightarrow> length row = p_m p"
  using payoff_matrix_shape [OF assms] by (auto simp: first_payoff_rows [OF assms])

lemma column_first_payoff:
  assumes "1 \<le> p_m p" and "i < p_m p"
  shows "column (first_one (payoff_matrix_at lstsq p Z)) i
           = Inr (map (\<lambda>row. row ! i) (first_one (payoff_matrix_at lstsq p Z)))"
  using first_payoff_shape(2) [OF assms(1)] assms(2)
  by (simp add: column_def list_all_iff)

lemma length_discounted_at:
  assumes "1 \<le> p_m p"
  shows "length (discounted_at lstsq p Z i) = p_n p"
  by (simp add: discounted_at_def first_payoff_shape(1) [OF assms])

lemma ebind_Inr: "ebind (Inr v) f = f v"
  by (simp add: ebind_def)

lemma ebind_Inl: "ebind (Inl e) f = Inl e"
  by (simp add: ebind_def)

text \<open>
  A run with \<open>m \<ge> 1\<close> steps whose keys line up returns, and leaves the quantities of the
  steps in its dicts, under the keys of the steps.
\<close>

lemma lsmc_closed:
  assumes m: "1 \<le> p_m p" and aligned: "keys_aligned p"
  shows "lsmc lstsq p Z = Inr (run_state lstsq p Z)"
proof -
  let ?m = "p_m p" and ?n = "p_n p" and ?r = "p_r p" and ?k = "time_key p"
  let ?dt = "binary64 (p_T p / real (p_m p))"
  let ?discount = "exp (- p_r p * binary64 (p_T p / real (p_m p)))"
  let ?Sd = "map (\<lambda>t. (?k t, S_at p Z t)) [0..<Suc ?m]"
  let ?Cd = "map (\<lambda>t. (?k t, cashflow_at p Z t)) [1..<Suc ?m]"
  let ?Vd = "map (\<lambda>t. (?k t, value_at lstsq p Z t)) (rev [1..<Suc ?m])"
  let ?Kd = "map (\<lambda>t. (?k t, continuation_at lstsq p Z t)) (rev [1..<Suc ?m])"
  let ?Pd = "map (\<lambda>t. (?k t, payoff_at lstsq p Z t)) [1..<Suc ?m]"
  let ?fp = "first_one (payoff_matrix_at lstsq p Z)"
  let ?Dd = "map (\<lambda>i. (i, discounted_at lstsq p Z i)) [0..<?m]"
  let ?span = "map ?k [1..<Suc ?m]"
  note inj = keys_aligned_inj [OF aligned]
  have dt: "(if ?m = 0 then Inl ZeroDivisionError else Inr ?dt) = Inr ?dt"
    using m by simp
  from keys_aligned_arange [OF aligned m] obtain ticks where
    s0: "arange ?dt (binary64 (p_T p + ?dt)) ?dt = Inr ticks"
    and span: "map (\<lambda>t. np_round t 6) ticks = ?span"
    unfolding dt_of_def by (elim exE conjE)
  have s1: "simulate ?r (p_sigma p) ?dt ?n Z 1 ?span
              [(0, map (\<lambda>one. p_Spot p * one) (replicate ?n 1))] = Inr ?Sd"
  proof -
    have "simulate ?r (p_sigma p) ?dt ?n Z 1 (map ?k [1..<Suc ?m])
            (map (\<lambda>t. (?k t, S_at p Z t)) [0..<1]) = Inr ?Sd"
    proof (rule simulate_closed [OF _ inj])
      fix i assume "1 \<le> i" "i \<le> ?m"
      then show "np_round (binary64 (?k i - ?dt)) 6 = ?k (i - 1)"
        using keys_aligned_previous [OF aligned, of i] by (simp only: dt_of_def)
    qed (simp_all add: dt_of_def)
    then show ?thesis by simp
  qed
  have s2: "dict_comprehension
              (\<lambda>t. ebind (dict_get ?Sd t) (\<lambda>S_t. Inr (map (\<lambda>s. max 0 (p_K p - s)) S_t)))
              ?span = Inr ?Cd"
  proof (rule dict_comprehension_keyed [OF _ _ inj])
    fix i assume "i \<in> set [1..<Suc ?m]"
    then have "dict_get ?Sd (?k i) = Inr (S_at p Z i)"
      by (subst dict_get_keyed [OF inj]) auto
    then show "ebind (dict_get ?Sd (?k i)) (\<lambda>S_t. Inr (map (\<lambda>s. max 0 (p_K p - s)) S_t))
                 = Inr (cashflow_at p Z i)"
      by (simp add: ebind_def cashflow_at_def)
  qed auto
  have s3: "dict_get ?Cd (p_T p) = Inr (cashflow_at p Z ?m)"
  proof -
    have "dict_get ?Cd (?k ?m) = Inr (cashflow_at p Z ?m)"
      using m by (subst dict_get_keyed [OF inj]) auto
    then show ?thesis
      by (simp only: keys_aligned_maturity [OF aligned])
  qed
  have s4: "backward_loop lstsq (p_order p) ?dt ?discount ?Sd ?Cd (tl (rev ?span))
              ([(p_T p, map (\<lambda>c. c * ?discount) (cashflow_at p Z ?m))],
               [(p_T p, replicate ?n (Fin 0))])
            = Inr (?Vd, ?Kd)"
  proof -
    have "backward_loop lstsq (p_order p) ?dt ?discount ?Sd ?Cd (map ?k (rev [1..<?m]))
            (map (\<lambda>t. (?k t, value_at lstsq p Z t)) (rev [?m..<Suc ?m]),
             map (\<lambda>t. (?k t, continuation_at lstsq p Z t)) (rev [?m..<Suc ?m]))
          = Inr (?Vd, ?Kd)"
    proof (rule backward_loop_closed [where Sv = "S_at p Z" and cf = "cashflow_at p Z", OF _ _ _ _ inj])
      fix t assume t: "1 \<le> t" "t < ?m"
      show "dict_get ?Sd (?k t) = Inr (S_at p Z t)"
        using t by (subst dict_get_keyed [OF inj]) auto
      show "dict_get ?Cd (?k t) = Inr (cashflow_at p Z t)"
        using t by (subst dict_get_keyed [OF inj]) auto
      show "continuation_at lstsq p Z t =
              ridge_regression lstsq (cheb_matrix (scale (S_at p Z t)) (p_order p))
                (value_at lstsq p Z (Suc t)) 100"
        using t by (intro continuation_at_step)
      show "value_at lstsq p Z t = map (\<lambda>v. ?discount * v)
              (tf_where (map2 (\<lambda>c q. tgreater (Fin c) q) (cashflow_at p Z t) (continuation_at lstsq p Z t))
                 (cashflow_at p Z t) (value_at lstsq p Z (Suc t)))"
        using value_at_step [OF t(2), of lstsq Z] by (simp add: discount_of_def dt_of_def)
      show "np_round (binary64 (?k t + ?dt)) 6 = ?k (Suc t)"
        using keys_aligned_next [OF aligned t] by (simp add: dt_of_def)
    qed (use m in simp_all)
    moreover have "tl (rev ?span) = map ?k (rev [1..<?m])"
      using m by (simp add: rev_map [symmetric])
    moreover have "map (\<lambda>t. (?k t, value_at lstsq p Z t)) (rev [?m..<Suc ?m])
                     = [(p_T p, map (\<lambda>c. c * ?discount) (cashflow_at p Z ?m))]"
      by (simp add: value_at_maturity discount_of_def dt_of_def keys_aligned_maturity [OF aligned])
    moreover have "map (\<lambda>t. (?k t, continuation_at lstsq p Z t)) (rev [?m..<Suc ?m])
                     = [(p_T p, replicate ?n (Fin 0))]"
      by (simp add: continuation_at_maturity keys_aligned_maturity [OF aligned])
    ultimately show ?thesis by (simp only:)
  qed
  have s5: "payoff_dict ?n ?Kd ?Cd ?span = Inr ?Pd"
    unfolding payoff_dict_def
  proof (rule dict_comprehension_keyed [OF _ _ inj])
    fix i assume i: "i \<in> set [1..<Suc ?m]"
    then have "dict_get ?Kd (?k i) = Inr (continuation_at lstsq p Z i)"
      by (subst dict_get_keyed [OF inj]) auto
    moreover from i have "dict_get ?Cd (?k i) = Inr (cashflow_at p Z i)"
      by (subst dict_get_keyed [OF inj]) auto
    ultimately show "ebind (dict_get ?Kd (?k i)) (\<lambda>continuation_t.
            ebind (dict_get ?Cd (?k i)) (\<lambda>cashflow_t.
              Inr (tf_where (map2 (\<lambda>q c. tgreater q (Fin c)) continuation_t cashflow_t)
                     (replicate ?n 0) cashflow_t))) = Inr (payoff_at lstsq p Z i)"
      by (simp add: ebind_def payoff_at_def)
  qed auto
  have s6: "stack_axis1 (dict_values ?Pd) = payoff_matrix_at lstsq p Z"
    by (simp add: dict_values_def payoff_matrix_at_def comp_def del: upt_Suc)
  have s7: "dict_comprehension
              (\<lambda>i. ebind (column ?fp i) (\<lambda>c. Inr (map (\<lambda>v. v * exp (- ?r * real i * ?dt)) c)))
              [0..<?m] = Inr ?Dd"
    by (rule dict_comprehension_closed)
       (simp_all add: column_first_payoff [OF m] ebind_def discounted_at_def dt_of_def)
  have s8: "add_n (dict_values ?Dd) = Inr (total_at lstsq p Z)"
  proof -
    have "add_n (map (discounted_at lstsq p Z) [0..<?m])
            = Inr (map (\<lambda>j. \<Sum>w\<leftarrow>map (discounted_at lstsq p Z) [0..<?m]. w ! j) [0..<?n])"
      using m by (intro add_n_closed) (auto simp: length_discounted_at)
    then show ?thesis
      by (simp add: dict_values_def total_at_def comp_def)
  qed
  show ?thesis
    unfolding lsmc_def Let_def run_state_def
    by (simp only: dt ebind_Inr s0 span s1 s2 s3 s4 s5 s6 s7 s8 prod.case)
qed

subsection \<open>The keys of the example runs\<close>

text \<open>
  With \<open>T = 2\<close> and \<open>m = 2\<close> the step is \<open>\<Delta>t = 1\<close> and the keys are \<open>0\<close>, \<open>1\<close> and \<open>2\<close>; with
  \<open>T = 1\<close> and \<open>m = 1\<close> they are \<open>0\<close> and \<open>1\<close>.
\<close>

lemma two_step_keys:
  assumes "p_T p = 2" and "p_m p = 2"
  shows "time_key p (Suc 0) = 1" and "time_key p 2 = 2" and "keys_aligned p" and "dt_of p = 1"
proof -
  have b: "binary64 1 = 1" "binary64 2 = 2" "binary64 3 = 3" "binary64 1000000 = 1000000"
    "binary64 2000000 = 2000000"
    by (simp_all add: float_eval)
  have r: "np_round 0 6 = 0" "np_round 1 6 = 1" "np_round 2 6 = 2"
    by (simp_all add: np_round_def b)
  show dt: "dt_of p = 1"
    by (simp add: dt_of_def assms b)
  have ar: "arange 1 3 1 = Inr [1, 2]"
    by (simp add: arange_def b upt_rec)
  have span: "t_span_of p = [1, 2]"
    by (simp add: t_span_of_def dt assms b ar r)
  show 1: "time_key p (Suc 0) = 1"
    by (simp add: time_key_def span)
  show 2: "time_key p 2 = 2"
    by (simp add: time_key_def span)
  have 3: "time_key p (Suc (Suc 0)) = 2"
    using 2 by (simp only: numeral_2_eq_2)
  have upt: "[0..<Suc 2] = [0, Suc 0, 2]" "[1..<Suc 2] = [Suc 0, 2]" "[1..<2] = [Suc 0]"
    by (simp_all add: upt_rec numeral_2_eq_2)
  show "keys_aligned p"
    unfolding keys_aligned_def assms upt
    by (simp add: 1 2 3 dt r b span assms)
qed

lemma one_step_keys:
  assumes "p_T p = 1" and "p_m p = 1"
  shows "time_key p (Suc 0) = 1" and "keys_aligned p" and "dt_of p = 1"
proof -
  have b: "binary64 1 = 1" "binary64 2 = 2" "binary64 1000000 = 1000000"
    by (simp_all add: float_eval)
  have r: "np_round 0 6 = 0" "np_round 1 6 = 1"
    by (simp_all add: np_round_def b)
  show dt: "dt_of p = 1"
    by (simp add: dt_of_def assms b)
  have ar: "arange 1 2 1 = Inr [1]"
    by (simp add: arange_def b upt_rec)
  have span: "t_span_of p = [1]"
    by (simp add: t_span_of_def dt assms b ar r)
  show 1: "time_key p (Suc 0) = 1"
    by (simp add: time_key_def span)
  show "keys_aligned p"
    unfolding keys_aligned_def assms
    by (simp add: 1 dt r b span assms)
qed

text \<open>
  The notebook's \<open>T = 1\<close> and \<open>m = 10\<close>: \<open>\<Delta>t\<close> is the double next to \<open>0.1\<close>, the keys are the
  doubles next to \<open>0.1, 0.2, ..., 0.9\<close> and \<open>1\<close>, and they line up.
\<close>

lemma notebook_keys_aligned: "keys_aligned notebook_parameters"
proof -
  have par: "p_T notebook_parameters = 1" "p_m notebook_parameters = 10"
    by (simp_all add: notebook_parameters_def)
  have b:
    "binary64 (1 / 10) = 3602879701896397 / 36028797018963968"
    "binary64 (39631676720860365 / 36028797018963968) = 2476979795053773 / 2251799813685248"
    "binary64 (36028797018963971 / 36028797018963968) = 1"
    "binary64 (36028797018963968 / 3602879701896397) = 10"
    "binary64 (3602879701896397 / 18014398509481984) = 3602879701896397 / 18014398509481984"
    "binary64 (3602879701896397 / 36028797018963968) = 3602879701896397 / 36028797018963968"
    "binary64 (10808639105689191 / 36028797018963968) = 1351079888211149 / 4503599627370496"
    "binary64 (14411518807585589 / 36028797018963968) = 3602879701896397 / 9007199254740992"
    "binary64 (3602879701896397 / 9007199254740992) = 3602879701896397 / 9007199254740992"
    "binary64 (18014398509481985 / 36028797018963968) = 1 / 2"
    "binary64 (21617278211378381 / 36028797018963968) = 5404319552844595 / 9007199254740992"
    "binary64 (10808639105689191 / 18014398509481984) = 1351079888211149 / 2251799813685248"
    "binary64 (25220157913274781 / 36028797018963968) = 6305039478318695 / 9007199254740992"
    "binary64 (25220157913274779 / 36028797018963968) = 6305039478318695 / 9007199254740992"
    "binary64 (28823037615171177 / 36028797018963968) = 3602879701896397 / 4503599627370496"
    "binary64 (3602879701896397 / 4503599627370496) = 3602879701896397 / 4503599627370496"
    "binary64 (32425917317067573 / 36028797018963968) = 8106479329266893 / 9007199254740992"
    "binary64 (36028797018963969 / 36028797018963968) = 1"
    "binary64 (7205759403792793 / 36028797018963968) = 7205759403792793 / 36028797018963968"
    "binary64 (14411518807585587 / 36028797018963968) = 3602879701896397 / 9007199254740992"
    "binary64 (18014398509481983 / 36028797018963968) = 1 / 2"
    "binary64 (21617278211378379 / 36028797018963968) = 5404319552844595 / 9007199254740992"
    "binary64 (28823037615171175 / 36028797018963968) = 3602879701896397 / 4503599627370496"
    "binary64 (32425917317067571 / 36028797018963968) = 8106479329266893 / 9007199254740992"
    "binary64 (25220157913274777 / 36028797018963968) = 3152519739159347 / 4503599627370496"
    "binary64 (28823037615171173 / 36028797018963968) = 7205759403792793 / 9007199254740992"
    by (simp_all add: float_eval)
  have r:
    "np_round (3602879701896397 / 36028797018963968) 6 = 3602879701896397 / 36028797018963968"
    "np_round (3602879701896397 / 18014398509481984) 6 = 3602879701896397 / 18014398509481984"
    "np_round (1351079888211149 / 4503599627370496) 6 = 5404319552844595 / 18014398509481984"
    "np_round (3602879701896397 / 9007199254740992) 6 = 3602879701896397 / 9007199254740992"
    "np_round (1 / 2) 6 = 1 / 2"
    "np_round (5404319552844595 / 9007199254740992) 6 = 5404319552844595 / 9007199254740992"
    "np_round (6305039478318695 / 9007199254740992) 6 = 3152519739159347 / 4503599627370496"
    "np_round (3602879701896397 / 4503599627370496) 6 = 3602879701896397 / 4503599627370496"
    "np_round (8106479329266893 / 9007199254740992) 6 = 8106479329266893 / 9007199254740992"
    "np_round (1) 6 = 1"
    "np_round (0) 6 = 0"
    "np_round (7205759403792793 / 36028797018963968) 6 = 3602879701896397 / 18014398509481984"
    "np_round (3152519739159347 / 4503599627370496) 6 = 3152519739159347 / 4503599627370496"
    "np_round (7205759403792793 / 9007199254740992) 6 = 3602879701896397 / 4503599627370496"
    by (simp_all add: float_eval)
  have dt: "dt_of notebook_parameters = 3602879701896397 / 36028797018963968"
    by (simp add: dt_of_def par b)
  have ar: "arange (3602879701896397 / 36028797018963968) (2476979795053773 / 2251799813685248) (3602879701896397 / 36028797018963968) = Inr [3602879701896397 / 36028797018963968, 3602879701896397 / 18014398509481984, 1351079888211149 / 4503599627370496, 3602879701896397 / 9007199254740992, 1 / 2, 5404319552844595 / 9007199254740992, 6305039478318695 / 9007199254740992, 3602879701896397 / 4503599627370496, 8106479329266893 / 9007199254740992, 1 :: real]"
    by (simp add: arange_def Let_def b upt_rec)
  have span: "t_span_of notebook_parameters = [3602879701896397 / 36028797018963968, 3602879701896397 / 18014398509481984, 5404319552844595 / 18014398509481984, 3602879701896397 / 9007199254740992, 1 / 2, 5404319552844595 / 9007199254740992, 3152519739159347 / 4503599627370496, 3602879701896397 / 4503599627370496, 8106479329266893 / 9007199254740992, 1 :: real]"
    by (simp add: t_span_of_def dt par b ar r)
  show ?thesis
    unfolding keys_aligned_def par
    by (simp add: time_key_def span dt par b r upt_rec)
qed

text \<open>
  \<open>T = 1\<close> and \<open>m = 3\<close>: \<open>\<Delta>t\<close> is the double next to \<open>1/3\<close> and the keys are the doubles next
  to \<open>0.333333\<close> and \<open>0.666667\<close>, and \<open>1\<close>. In the second round of the simulation loop
  \<open>np.round(t - \<Delta>t, 6)\<close> is the double next to \<open>0.333334\<close>, which is no key of \<open>S\<close>.
\<close>

lemma three_steps_KeyError:
  assumes "p_T p = 1" and "p_m p = 3"
  shows "lsmc lstsq p Z = Inl KeyError"
proof -
  have b:
    "binary64 (1 / 3) = 6004799503160661 / 18014398509481984"
    "binary64 (24019198012642645 / 18014398509481984) = 6004799503160661 / 4503599627370496"
    "binary64 (18014398509481983 / 18014398509481984) = 1"
    "binary64 (18014398509481984 / 6004799503160661) = 3"
    "binary64 (6004799503160661 / 9007199254740992) = 6004799503160661 / 9007199254740992"
    "binary64 (6004799503160661 / 18014398509481984) = 6004799503160661 / 18014398509481984"
    "binary64 (- (6004799503 / 18014398509481984)) = - (6004799503 / 18014398509481984)"
    "binary64 (6004805507960165 / 18014398509481984) = 6004805507960165 / 18014398509481984"
    by (simp_all add: float_eval)
  have r:
    "np_round (6004799503160661 / 18014398509481984) 6 = 3002396749180579 / 9007199254740992"
    "np_round (6004799503160661 / 9007199254740992) 6 = 6004802505560413 / 9007199254740992"
    "np_round (1) 6 = 1"
    "np_round (- (6004799503 / 18014398509481984)) 6 = 0"
    "np_round (6004805507960165 / 18014398509481984) 6 = 1501202878189917 / 4503599627370496"
    by (simp_all add: float_eval)
  have dt: "(if p_m p = 0 then Inl ZeroDivisionError else Inr (binary64 (p_T p / real (p_m p))))
              = Inr (6004799503160661 / 18014398509481984)"
    by (simp add: assms b)
  have ar: "arange (6004799503160661 / 18014398509481984) (binary64 (p_T p + 6004799503160661 / 18014398509481984)) (6004799503160661 / 18014398509481984)
              = Inr [6004799503160661 / 18014398509481984, 6004799503160661 / 9007199254740992, 1 :: real]"
    by (simp add: assms arange_def Let_def b upt_rec)
  have span: "map (\<lambda>t. np_round t 6) [6004799503160661 / 18014398509481984, 6004799503160661 / 9007199254740992, 1 :: real]
              = [3002396749180579 / 9007199254740992, 6004802505560413 / 9007199254740992, 1 :: real]"
    by (simp add: r)
  have sim: "simulate r sigma (6004799503160661 / 18014398509481984) n Z 1
               [3002396749180579 / 9007199254740992, 6004802505560413 / 9007199254740992, 1 :: real] [(0, S0)]
             = Inl KeyError" for r sigma n S0
    by (simp add: b r Let_def dict_get_def dict_set_def)
  show ?thesis
    unfolding lsmc_def Let_def
    by (simp only: dt ebind_Inr ar span sim ebind_Inl)
qed

text \<open>
  \<open>T = 0.1\<close> and \<open>m = 2\<close>: \<open>(stop - start) / step\<close> is \<open>2.0000000000000004\<close> in float
  arithmetic, so \<open>np.arange\<close> returns the three times \<open>0.05\<close>, \<open>0.1\<close> and
  \<open>0.15000000000000002\<close>, and the first round of the backward loop, at \<open>t = 0.1\<close>, looks
  \<open>value\<close> up under the key \<open>0.15\<close>, which it does not hold.
\<close>

lemma tenth_maturity_steps_KeyError:
  assumes "p_T p = 3602879701896397 / 36028797018963968" and "p_m p = 2"
  shows "lsmc lstsq p Z = Inl KeyError"
proof -
  let ?A0 = "map (\<lambda>one. p_Spot p * one) (replicate (p_n p) 1)"
  let ?A1 = "advance (p_r p) (p_sigma p) (3602879701896397 / 72057594037927936) (p_n p) (Z (Suc 0)) ?A0"
  let ?A2 = "advance (p_r p) (p_sigma p) (3602879701896397 / 72057594037927936) (p_n p) (Z (Suc (Suc 0))) ?A1"
  let ?A3 = "advance (p_r p) (p_sigma p) (3602879701896397 / 72057594037927936) (p_n p) (Z (Suc (Suc (Suc 0)))) ?A2"
  let ?S = "[(0 :: real, ?A0), (3602879701896397 / 72057594037927936, ?A1), (3602879701896397 / 36028797018963968, ?A2), (5404319552844595 / 36028797018963968, ?A3)]"
  let ?C = "[(3602879701896397 / 72057594037927936 :: real, map (\<lambda>s. max 0 (p_K p - s)) ?A1), (3602879701896397 / 36028797018963968 :: real, map (\<lambda>s. max 0 (p_K p - s)) ?A2), (5404319552844595 / 36028797018963968 :: real, map (\<lambda>s. max 0 (p_K p - s)) ?A3)]"
  have b:
    "binary64 (3602879701896397 / 72057594037927936) = 3602879701896397 / 72057594037927936"
    "binary64 (10808639105689191 / 72057594037927936) = 1351079888211149 / 9007199254740992"
    "binary64 (7205759403792795 / 72057594037927936) = 7205759403792795 / 72057594037927936"
    "binary64 (7205759403792795 / 3602879701896397) = 4503599627370497 / 2251799813685248"
    "binary64 (3602879701896397 / 36028797018963968) = 3602879701896397 / 36028797018963968"
    "binary64 (7205759403792793 / 72057594037927936) = 7205759403792793 / 72057594037927936"
    by (simp_all add: float_eval)
  have r:
    "np_round (3602879701896397 / 72057594037927936) 6 = 3602879701896397 / 72057594037927936"
    "np_round (3602879701896397 / 36028797018963968) 6 = 3602879701896397 / 36028797018963968"
    "np_round (1351079888211149 / 9007199254740992) 6 = 5404319552844595 / 36028797018963968"
    "np_round (0) 6 = 0"
    "np_round (7205759403792793 / 72057594037927936) 6 = 3602879701896397 / 36028797018963968"
    by (simp_all add: float_eval)
  have dt: "(if p_m p = 0 then Inl ZeroDivisionError else Inr (binary64 (p_T p / real (p_m p))))
              = Inr (3602879701896397 / 72057594037927936)"
    by (simp add: assms b)
  have ar: "arange (3602879701896397 / 72057594037927936) (binary64 (p_T p + 3602879701896397 / 72057594037927936)) (3602879701896397 / 72057594037927936)
              = Inr [3602879701896397 / 72057594037927936, 3602879701896397 / 36028797018963968, 1351079888211149 / 9007199254740992 :: real]"
    by (simp add: assms arange_def Let_def b upt_rec)
  have span: "map (\<lambda>t. np_round t 6) [3602879701896397 / 72057594037927936, 3602879701896397 / 36028797018963968, 1351079888211149 / 9007199254740992 :: real]
              = [3602879701896397 / 72057594037927936, 3602879701896397 / 36028797018963968, 5404319552844595 / 36028797018963968 :: real]"
    by (simp add: r)
  have sim: "simulate (p_r p) (p_sigma p) (3602879701896397 / 72057594037927936) (p_n p) Z 1
               [3602879701896397 / 72057594037927936, 3602879701896397 / 36028797018963968, 5404319552844595 / 36028797018963968 :: real] [(0, ?A0)]
             = Inr ?S"
    by (simp add: b r Let_def dict_get_def dict_set_def)
  have cash: "dict_comprehension
               (\<lambda>t. ebind (dict_get ?S t) (\<lambda>S_t. Inr (map (\<lambda>s. max 0 (p_K p - s)) S_t)))
               [3602879701896397 / 72057594037927936, 3602879701896397 / 36028797018963968, 5404319552844595 / 36028797018963968 :: real] = Inr ?C"
    by (simp add: dict_comprehension_def ebind_def dict_get_def dict_set_def)
  have cash_T: "dict_get ?C (p_T p) = Inr (map (\<lambda>s. max 0 (p_K p - s)) ?A2)"
    by (simp add: assms dict_get_def)
  have bw: "backward_loop lstsq order (3602879701896397 / 72057594037927936) discount ?S ?C
                (tl (rev [3602879701896397 / 72057594037927936, 3602879701896397 / 36028797018963968, 5404319552844595 / 36028797018963968 :: real]))
                ([(p_T p, V)], [(p_T p, C)])
              = Inl KeyError" for order discount V C
    by (simp add: assms b r Let_def dict_get_def chebyshev_basis_matrix)
  show ?thesis
    unfolding lsmc_def Let_def
    by (simp only: dt ebind_Inr ar span sim cash cash_T bw ebind_Inl)
qed

lemma three_step_keys_not_aligned: "\<not> keys_aligned three_step_parameters"
proof -
  have "p_T three_step_parameters = 1" and "p_m three_step_parameters = 3"
    by (simp_all add: three_step_parameters_def)
  then have "lsmc (\<lambda>X Y l. []) three_step_parameters (\<lambda>i j. 0) = Inl KeyError"
    by (rule three_steps_KeyError)
  moreover have "lsmc (\<lambda>X Y l. []) three_step_parameters (\<lambda>i j. 0)
                   = Inr (run_state (\<lambda>X Y l. []) three_step_parameters (\<lambda>i j. 0))"
    if "keys_aligned three_step_parameters"
    by (rule lsmc_closed [OF _ that]) (simp add: three_step_parameters_def)
  ultimately show ?thesis by auto
qed

lemma tenth_maturity_KeyError:
  "lsmc lstsq tenth_maturity_parameters Z = Inl KeyError"
  by (rule tenth_maturity_steps_KeyError) (simp_all add: tenth_maturity_parameters_def)

subsection \<open>The example runs\<close>

lemma two_path_basis: "cheb_matrix (scale [1024, 2048]) 2 = [[Fin 1, Fin (- 1)], [Fin 1, Fin 1]]"
  by (simp add: cheb_matrix_def scale_def tsub_def stack_axis1_def ones_like_def
                numeral_2_eq_2 upt_rec)

lemma exercise_m: "p_m exercise_parameters = 2" and exercise_n: "p_n exercise_parameters = 2"
  and exercise_order: "p_order exercise_parameters = 2" and exercise_T: "p_T exercise_parameters = 2"
  by (simp_all add: exercise_parameters_def)

lemma exercise_par:
  "p_Spot exercise_parameters = 1024" "p_sigma exercise_parameters = 1" "p_K exercise_parameters = 1032"
  "p_r exercise_parameters = 0"
  by (simp_all add: exercise_parameters_def)

lemma exercise_dt: "dt_of exercise_parameters = 1"
  using exercise_T exercise_m by (rule two_step_keys(4))

lemma exercise_S:
  "S_at exercise_parameters exercise_draws 0 = [1024, 1024]"
  "S_at exercise_parameters exercise_draws (Suc 0) = [1024, 2048]"
  "S_at exercise_parameters exercise_draws 2 = [1040, 4737 / 8]"
proof -
  show 0: "S_at exercise_parameters exercise_draws 0 = [1024, 1024]"
    by (simp add: exercise_par exercise_n numeral_2_eq_2)
  show 1: "S_at exercise_parameters exercise_draws (Suc 0) = [1024, 2048]"
    by (simp add: 0 advance_def exercise_dt exercise_par exercise_n exercise_draws_def numeral_2_eq_2 upt_rec)
  have "S_at exercise_parameters exercise_draws (Suc (Suc 0)) = [1040, 4737 / 8]"
    unfolding S_at.simps(2) [of _ _ "Suc 0"] 1
    by (simp add: advance_def exercise_dt exercise_par exercise_n exercise_draws_def upt_rec)
  then show "S_at exercise_parameters exercise_draws 2 = [1040, 4737 / 8]" by (simp add: numeral_2_eq_2)
qed

lemma exercise_cashflow:
  "cashflow_at exercise_parameters exercise_draws (Suc 0) = [8, 0]"
  "cashflow_at exercise_parameters exercise_draws 2 = [0, 3519 / 8]"
  unfolding cashflow_at_def exercise_S by (simp_all add: exercise_par)

lemma exercise_discount: "discount_of exercise_parameters = 1"
  by (simp add: discount_of_def exercise_dt exercise_par)

lemma exercise_value_2: "value_at two_path_solver exercise_parameters exercise_draws 2 = [0, 3519 / 8]"
  using value_at_maturity [of two_path_solver exercise_parameters exercise_draws]
  unfolding exercise_m exercise_cashflow exercise_discount by simp

lemma exercise_continuation_2:
  "continuation_at two_path_solver exercise_parameters exercise_draws 2 = [Fin 0, Fin 0]"
  using continuation_at_maturity [of two_path_solver exercise_parameters exercise_draws]
  unfolding exercise_m exercise_n by (simp add: numeral_2_eq_2)

lemma exercise_continuation_1:
  "continuation_at two_path_solver exercise_parameters exercise_draws (Suc 0) = [Fin 0, Fin (69 / 8)]"
proof -
  have "continuation_at two_path_solver exercise_parameters exercise_draws (Suc 0)
          = ridge_regression two_path_solver [[Fin 1, Fin (- 1)], [Fin 1, Fin 1]] [0, 3519 / 8] 100"
    using continuation_at_step [of "Suc 0" exercise_parameters two_path_solver exercise_draws]
    unfolding exercise_m exercise_order exercise_S two_path_basis
    by (simp add: exercise_value_2 numeral_2_eq_2 [symmetric])
  also have "\<dots> = [Fin 0, Fin (69 / 8)]"
    by (simp add: ridge_regression_def matvec_def dot_def two_path_solver_def)
  finally show ?thesis .
qed

lemma exercise_value_1: "value_at two_path_solver exercise_parameters exercise_draws (Suc 0) = [8, 3519 / 8]"
  using value_at_step [of "Suc 0" exercise_parameters two_path_solver exercise_draws]
  unfolding exercise_m exercise_cashflow exercise_continuation_1 exercise_discount
  by (simp add: exercise_value_2 numeral_2_eq_2 [symmetric] tf_where_def)

lemma exercise_payoff:
  "payoff_at two_path_solver exercise_parameters exercise_draws (Suc 0) = [8, 0]"
  "payoff_at two_path_solver exercise_parameters exercise_draws 2 = [0, 3519 / 8]"
  unfolding payoff_at_def exercise_cashflow exercise_continuation_1 exercise_continuation_2 exercise_n
  by (simp_all add: tf_where_def numeral_2_eq_2)

lemma exercise_payoff_matrix:
  "payoff_matrix_at two_path_solver exercise_parameters exercise_draws = [[8, 0], [0, 3519 / 8]]"
proof -
  have "[1..<Suc 2] = [Suc 0, 2]" by (simp add: upt_rec numeral_2_eq_2)
  then show ?thesis
    unfolding payoff_matrix_at_def exercise_m
    by (simp add: exercise_payoff stack_axis1_def)
qed

lemma exercise_first_payoff:
  "first_one (payoff_matrix_at two_path_solver exercise_parameters exercise_draws) = [[8, 0], [0, 3519 / 8]]"
  unfolding exercise_payoff_matrix
  by (simp add: first_one_def n_columns_of_def cumprod_def Let_def)

lemma exercise_price:
  "reduce_mean (total_at two_path_solver exercise_parameters exercise_draws) = Fin (3583 / 16)"
proof -
  have "[0..<2] = [0, Suc 0]" by (simp add: upt_rec numeral_2_eq_2)
  then show ?thesis
    unfolding total_at_def discounted_at_def exercise_first_payoff exercise_m exercise_n
    by (simp add: reduce_mean_def exercise_dt exercise_par)
qed

lemma exercise_run:
  "lsmc two_path_solver exercise_parameters exercise_draws =
     Inr \<lparr>st_S = [(0, [1024, 1024]), (1, [1024, 2048]), (2, [1040, 4737 / 8])],
          st_cashflow = [(1, [8, 0]), (2, [0, 3519 / 8])],
          st_value = [(2, [0, 3519 / 8]), (1, [8, 3519 / 8])],
          st_continuation_value = [(2, [Fin 0, Fin 0]), (1, [Fin 0, Fin (69 / 8)])],
          st_payoff = [[8, 0], [0, 3519 / 8]],
          st_first_payoff = [[8, 0], [0, 3519 / 8]],
          st_price = Fin (3583 / 16)\<rparr>"
proof -
  have upt: "[0..<Suc 2] = [0, Suc 0, 2]" "[1..<Suc 2] = [Suc 0, 2]"
    by (simp_all add: upt_rec numeral_2_eq_2)
  note keys = two_step_keys [OF exercise_T exercise_m]
  have "1 \<le> p_m exercise_parameters"
    by (simp add: exercise_m)
  from lsmc_closed [OF this keys(3), of two_path_solver exercise_draws] show ?thesis
    unfolding run_state_def exercise_m upt exercise_price exercise_first_payoff exercise_payoff_matrix
    by (simp add: keys(1,2) exercise_S exercise_cashflow exercise_value_1 exercise_value_2 exercise_continuation_1
                  exercise_continuation_2
                  exercise_first_payoff [unfolded exercise_payoff_matrix] del: S_at.simps)
qed

lemma tie_m: "p_m tie_parameters = 2" and tie_n: "p_n tie_parameters = 2"
  and tie_order: "p_order tie_parameters = 2" and tie_T: "p_T tie_parameters = 2"
  by (simp_all add: tie_parameters_def)

lemma tie_par:
  "p_Spot tie_parameters = 1024" "p_sigma tie_parameters = 1" "p_K tie_parameters = 8261 / 8"
  "p_r tie_parameters = 0"
  by (simp_all add: tie_parameters_def)

lemma tie_dt: "dt_of tie_parameters = 1"
  using tie_T tie_m by (rule two_step_keys(4))

lemma tie_S:
  "S_at tie_parameters tie_draws 0 = [1024, 1024]"
  "S_at tie_parameters tie_draws (Suc 0) = [1024, 2048]"
  "S_at tie_parameters tie_draws 2 = [2371 / 4, 2048]"
proof -
  show 0: "S_at tie_parameters tie_draws 0 = [1024, 1024]"
    by (simp add: tie_par tie_n numeral_2_eq_2)
  show 1: "S_at tie_parameters tie_draws (Suc 0) = [1024, 2048]"
    by (simp add: 0 advance_def tie_dt tie_par tie_n tie_draws_def numeral_2_eq_2 upt_rec)
  have "S_at tie_parameters tie_draws (Suc (Suc 0)) = [2371 / 4, 2048]"
    unfolding S_at.simps(2) [of _ _ "Suc 0"] 1
    by (simp add: advance_def tie_dt tie_par tie_n tie_draws_def upt_rec)
  then show "S_at tie_parameters tie_draws 2 = [2371 / 4, 2048]" by (simp add: numeral_2_eq_2)
qed

lemma tie_cashflow:
  "cashflow_at tie_parameters tie_draws (Suc 0) = [69 / 8, 0]"
  "cashflow_at tie_parameters tie_draws 2 = [3519 / 8, 0]"
  unfolding cashflow_at_def tie_S by (simp_all add: tie_par)

lemma tie_discount: "discount_of tie_parameters = 1"
  by (simp add: discount_of_def tie_dt tie_par)

lemma tie_value_2: "value_at two_path_solver tie_parameters tie_draws 2 = [3519 / 8, 0]"
  using value_at_maturity [of two_path_solver tie_parameters tie_draws]
  unfolding tie_m tie_cashflow tie_discount by simp

lemma tie_continuation_2:
  "continuation_at two_path_solver tie_parameters tie_draws 2 = [Fin 0, Fin 0]"
  using continuation_at_maturity [of two_path_solver tie_parameters tie_draws]
  unfolding tie_m tie_n by (simp add: numeral_2_eq_2)

lemma tie_continuation_1:
  "continuation_at two_path_solver tie_parameters tie_draws (Suc 0) = [Fin (69 / 8), Fin 0]"
proof -
  have "continuation_at two_path_solver tie_parameters tie_draws (Suc 0)
          = ridge_regression two_path_solver [[Fin 1, Fin (- 1)], [Fin 1, Fin 1]] [3519 / 8, 0] 100"
    using continuation_at_step [of "Suc 0" tie_parameters two_path_solver tie_draws]
    unfolding tie_m tie_order tie_S two_path_basis
    by (simp add: tie_value_2 numeral_2_eq_2 [symmetric])
  also have "\<dots> = [Fin (69 / 8), Fin 0]"
    by (simp add: ridge_regression_def matvec_def dot_def two_path_solver_def)
  finally show ?thesis .
qed

lemma tie_value_1: "value_at two_path_solver tie_parameters tie_draws (Suc 0) = [3519 / 8, 0]"
  using value_at_step [of "Suc 0" tie_parameters two_path_solver tie_draws]
  unfolding tie_m tie_cashflow tie_continuation_1 tie_discount
  by (simp add: tie_value_2 numeral_2_eq_2 [symmetric] tf_where_def)

lemma tie_payoff:
  "payoff_at two_path_solver tie_parameters tie_draws (Suc 0) = [69 / 8, 0]"
  "payoff_at two_path_solver tie_parameters tie_draws 2 = [3519 / 8, 0]"
  unfolding payoff_at_def tie_cashflow tie_continuation_1 tie_continuation_2 tie_n
  by (simp_all add: tf_where_def numeral_2_eq_2)

lemma tie_payoff_matrix:
  "payoff_matrix_at two_path_solver tie_parameters tie_draws = [[69 / 8, 3519 / 8], [0, 0]]"
proof -
  have "[1..<Suc 2] = [Suc 0, 2]" by (simp add: upt_rec numeral_2_eq_2)
  then show ?thesis
    unfolding payoff_matrix_at_def tie_m
    by (simp add: tie_payoff stack_axis1_def)
qed

lemma tie_first_payoff:
  "first_one (payoff_matrix_at two_path_solver tie_parameters tie_draws) = [[69 / 8, 0], [0, 0]]"
  unfolding tie_payoff_matrix
  by (simp add: first_one_def n_columns_of_def cumprod_def Let_def)

lemma tie_price:
  "reduce_mean (total_at two_path_solver tie_parameters tie_draws) = Fin (69 / 16)"
proof -
  have "[0..<2] = [0, Suc 0]" by (simp add: upt_rec numeral_2_eq_2)
  then show ?thesis
    unfolding total_at_def discounted_at_def tie_first_payoff tie_m tie_n
    by (simp add: reduce_mean_def tie_dt tie_par)
qed

lemma tie_run:
  "lsmc two_path_solver tie_parameters tie_draws =
     Inr \<lparr>st_S = [(0, [1024, 1024]), (1, [1024, 2048]), (2, [2371 / 4, 2048])],
          st_cashflow = [(1, [69 / 8, 0]), (2, [3519 / 8, 0])],
          st_value = [(2, [3519 / 8, 0]), (1, [3519 / 8, 0])],
          st_continuation_value = [(2, [Fin 0, Fin 0]), (1, [Fin (69 / 8), Fin 0])],
          st_payoff = [[69 / 8, 3519 / 8], [0, 0]],
          st_first_payoff = [[69 / 8, 0], [0, 0]],
          st_price = Fin (69 / 16)\<rparr>"
proof -
  have upt: "[0..<Suc 2] = [0, Suc 0, 2]" "[1..<Suc 2] = [Suc 0, 2]"
    by (simp_all add: upt_rec numeral_2_eq_2)
  note keys = two_step_keys [OF tie_T tie_m]
  have "1 \<le> p_m tie_parameters"
    by (simp add: tie_m)
  from lsmc_closed [OF this keys(3), of two_path_solver tie_draws] show ?thesis
    unfolding run_state_def tie_m upt tie_price tie_first_payoff tie_payoff_matrix
    by (simp add: keys(1,2) tie_S tie_cashflow tie_value_1 tie_value_2 tie_continuation_1
                  tie_continuation_2
                  tie_first_payoff [unfolded tie_payoff_matrix] del: S_at.simps)
qed
















lemma two_path_objective:
  "ridge_objective [[1, - 1], [1, 1]] [y0, y1] l [z0, z1]
     = (2 + l) * (z0\<^sup>2 + z1\<^sup>2) - 2 * z0 * (y0 + y1) - 2 * z1 * (y1 - y0) + y0\<^sup>2 + y1\<^sup>2"
  by (simp add: ridge_objective_def power2_eq_square algebra_simps)

lemma two_path_solver_minimises:
  assumes "0 \<le> l"
  shows "ridge_objective [[1, - 1], [1, 1]] [y0, y1] l
           [(y0 + y1) / (2 + l), (y1 - y0) / (2 + l)]
         \<le> ridge_objective [[1, - 1], [1, 1]] [y0, y1] l [z0, z1]"
proof -
  from assms have l: "2 + l \<noteq> 0" by simp
  define b0 where "b0 = (y0 + y1) / (2 + l)"
  define b1 where "b1 = (y1 - y0) / (2 + l)"
  have y: "y0 + y1 = (2 + l) * b0" "y1 - y0 = (2 + l) * b1"
    using l by (simp_all add: b0_def b1_def)
  have "ridge_objective [[1, - 1], [1, 1]] [y0, y1] l [z0, z1]
          - ridge_objective [[1, - 1], [1, 1]] [y0, y1] l [b0, b1]
        = (2 + l) * ((z0 - b0)\<^sup>2 + (z1 - b1)\<^sup>2)"
    unfolding two_path_objective y
    by (simp add: power2_eq_square algebra_simps)
  moreover have "0 \<le> (2 + l) * ((z0 - b0)\<^sup>2 + (z1 - b1)\<^sup>2)"
    using assms by simp
  ultimately show ?thesis
    unfolding b0_def b1_def by linarith
qed

lemma one_step_run_closed:
  fixes p :: parameters and Z :: "nat \<Rightarrow> nat \<Rightarrow> real"
  assumes "p_m p = 1" and "p_n p = 1" and "p_T p = 1"
  defines "s1 \<equiv> p_Spot p + p_r p * p_Spot p + p_sigma p * p_Spot p * Z 1 0"
  defines "c \<equiv> max 0 (p_K p - s1)"
  shows "lsmc lstsq p Z =
     Inr \<lparr>st_S = [(0, [p_Spot p]), (1, [s1])],
          st_cashflow = [(1, [c])],
          st_value = [(1, [c * exp (- p_r p)])],
          st_continuation_value = [(1, [Fin 0])],
          st_payoff = [[c]],
          st_first_payoff = [[c]],
          st_price = Fin c\<rparr>"
proof -
  have m: "1 \<le> p_m p" using assms by simp
  note keys = one_step_keys [OF assms(3) assms(1)]
  have S0: "S_at p Z 0 = [p_Spot p]"
    by (simp add: assms)
  have S1: "S_at p Z (Suc 0) = [s1]"
    by (simp add: advance_def keys(3) assms)
  have cash: "cashflow_at p Z (Suc 0) = [c]"
    unfolding cashflow_at_def S1 by (simp add: c_def)
  have cont: "continuation_at lstsq p Z (Suc 0) = [Fin 0]"
    using continuation_at_maturity [of lstsq p Z] by (simp add: assms)
  have val: "value_at lstsq p Z (Suc 0) = [c * exp (- p_r p)]"
    using value_at_maturity [of lstsq p Z]
    unfolding assms(1) One_nat_def cash by (simp add: discount_of_def keys(3))
  have pay: "payoff_at lstsq p Z (Suc 0) = [c]"
    unfolding payoff_at_def cont cash by (simp add: tf_where_def assms c_def)
  have mat: "payoff_matrix_at lstsq p Z = [[c]]"
    unfolding payoff_matrix_at_def by (simp add: assms pay stack_axis1_def)
  have first: "first_one [[c]] = [[c]]"
    by (simp add: first_one_def n_columns_of_def cumprod_def Let_def c_def)
  have price: "reduce_mean (total_at lstsq p Z) = Fin c"
    unfolding total_at_def discounted_at_def mat first
    by (simp add: assms reduce_mean_def)
  from lsmc_closed [OF m keys(2), of lstsq Z] show ?thesis
    unfolding run_state_def mat first price assms(1)
    by (simp add: keys(1) S0 S1 cash cont val del: S_at.simps)
qed


lemma negative_volatility_run:
  "lsmc lstsq negative_volatility_parameters unit_draws =
     Inr \<lparr>st_S = [(0, [36]), (1, [774 / 25])],
          st_cashflow = [(1, [226 / 25])],
          st_value = [(1, [226 / 25 * exp (- (3 / 50))])],
          st_continuation_value = [(1, [Fin 0])],
          st_payoff = [[226 / 25]],
          st_first_payoff = [[226 / 25]],
          st_price = Fin (226 / 25)\<rparr>"
  using one_step_run_closed [of negative_volatility_parameters lstsq unit_draws]
  by (simp add: negative_volatility_parameters_def unit_draws_def)

subsection \<open>The backward induction\<close>








subsection \<open>The exercise signal\<close>

lemma payoff_at_nth:
  assumes "j < p_n p"
  shows "payoff_at lstsq p Z i ! j =
           (if tgreater (continuation_at lstsq p Z i ! j) (Fin (cashflow_at p Z i ! j)) then 0
            else cashflow_at p Z i ! j)"
  using assms by (simp add: payoff_at_def tf_where_def)

text \<open>
  Claim C5, at the run with a tie. At step 1 on path 0 the continuation value equals the
  cashflow, \<open>8.625\<close>: the coefficients \<open>4.3125\<close> and \<open>-4.3125\<close> are the ridge solution with
  penalty 100 for the value \<open>[439.875, 0]\<close> of step 2. The claim asks for the payoff 0 of a
  path that is held, and the value recursion of the same run does hold: its test is
  \<open>cashflow > continuation_value\<close>, and \<open>value[1]\<close> is \<open>value[2] = 439.875\<close> on that path,
  not the cashflow. The payoff cell tests \<open>continuation_value > cashflow\<close> and records the
  cashflow \<open>8.625\<close> as exercised at step 1, so that \<open>first_one\<close> drops the \<open>439.875\<close> of
  step 2 and the price is \<open>4.3125\<close>.
\<close>

theorem exercise_tie_divergence:
  "lsmc two_path_solver tie_parameters tie_draws =
     Inr \<lparr>st_S = [(0, [1024, 1024]), (1, [1024, 2048]), (2, [2371 / 4, 2048])],
          st_cashflow = [(1, [69 / 8, 0]), (2, [3519 / 8, 0])],
          st_value = [(2, [3519 / 8, 0]), (1, [3519 / 8, 0])],
          st_continuation_value = [(2, [Fin 0, Fin 0]), (1, [Fin (69 / 8), Fin 0])],
          st_payoff = [[69 / 8, 3519 / 8], [0, 0]],
          st_first_payoff = [[69 / 8, 0], [0, 0]],
          st_price = Fin (69 / 16)\<rparr>
   \<and> two_path_solver [[Fin 1, Fin (- 1)], [Fin 1, Fin 1]] [3519 / 8, 0] 100
       = [Fin (69 / 16), Fin (- (69 / 16))]"
proof -
  have "two_path_solver [[Fin 1, Fin (- 1)], [Fin 1, Fin 1]] [3519 / 8, 0] 100
          = [Fin (69 / 16), Fin (- (69 / 16))]"
    by (simp add: two_path_solver_def)
  then show ?thesis
    using tie_run by simp
qed

subsection \<open>Nonnegativity\<close>

lemma cashflow_at_nonneg: "x \<in> set (cashflow_at p Z t) \<Longrightarrow> 0 \<le> x"
  by (auto simp: cashflow_at_def)

lemma set_tf_where: "set (tf_where c a b) \<subseteq> set a \<union> set b"
proof
  fix x assume "x \<in> set (tf_where c a b)"
  then obtain ci ai bi where "(ci, ai, bi) \<in> set (zip c (zip a b))"
    and x: "x = (if ci then ai else bi)"
    by (auto simp: tf_where_def)
  then have "(ai, bi) \<in> set (zip a b)"
    by (auto dest: set_zip_rightD)
  then have "ai \<in> set a" and "bi \<in> set b"
    by (auto dest: set_zip_leftD set_zip_rightD)
  with x show "x \<in> set a \<union> set b" by simp
qed

lemma back_at_nonneg: "x \<in> set (fst (back_at lstsq p Z d)) \<Longrightarrow> 0 \<le> x"
proof (induction d arbitrary: x)
  case 0
  then obtain c where "c \<in> set (cashflow_at p Z (p_m p))" and "x = c * discount_of p"
    by auto
  then show ?case
    using cashflow_at_nonneg [of c] by (simp add: discount_of_def)
next
  case (Suc d)
  let ?t = "p_m p - Suc d"
  let ?c = "ridge_regression lstsq (cheb_matrix (scale (S_at p Z ?t)) (p_order p))
              (fst (back_at lstsq p Z d)) 100"
  from Suc.prems obtain v where
      v: "v \<in> set (tf_where (map2 (\<lambda>c q. tgreater (Fin c) q) (cashflow_at p Z ?t) ?c)
                      (cashflow_at p Z ?t) (fst (back_at lstsq p Z d)))"
      and x: "x = discount_of p * v"
    by (auto simp: Let_def)
  have "v \<in> set (cashflow_at p Z ?t) \<union> set (fst (back_at lstsq p Z d))"
    by (rule subsetD [OF set_tf_where v])
  then have "0 \<le> v"
  proof
    assume "v \<in> set (cashflow_at p Z ?t)"
    then show ?thesis by (rule cashflow_at_nonneg)
  next
    assume "v \<in> set (fst (back_at lstsq p Z d))"
    then show ?thesis by (rule Suc.IH)
  qed
  with x show ?case by (simp add: discount_of_def)
qed

lemma value_at_nonneg: "x \<in> set (value_at lstsq p Z t) \<Longrightarrow> 0 \<le> x"
  unfolding value_at_def by (rule back_at_nonneg)

lemma first_positive_only_nonneg: "x \<in> set (first_positive_only row) \<Longrightarrow> 0 \<le> x"
  by (auto simp: first_positive_only_def)

lemma first_payoff_nonneg:
  assumes "1 \<le> p_m p" and "row \<in> set (first_one (payoff_matrix_at lstsq p Z))" and "x \<in> set row"
  shows "0 \<le> x"
  using assms(2,3) first_positive_only_nonneg
  unfolding first_payoff_rows [OF assms(1)] by auto

lemma discounted_at_nth:
  assumes "1 \<le> p_m p" and "j < p_n p"
  shows "discounted_at lstsq p Z i ! j
           = first_one (payoff_matrix_at lstsq p Z) ! j ! i * exp (- p_r p * real i * dt_of p)"
  using assms by (simp add: discounted_at_def first_payoff_shape(1))

lemma sum_list_total_at:
  assumes "1 \<le> p_m p"
  shows "sum_list (total_at lstsq p Z)
           = (\<Sum>j\<leftarrow>[0..<p_n p]. \<Sum>i\<leftarrow>[0..<p_m p].
                 first_one (payoff_matrix_at lstsq p Z) ! j ! i * exp (- p_r p * real i * dt_of p))"
proof -
  have "total_at lstsq p Z
          = map (\<lambda>j. \<Sum>i\<leftarrow>[0..<p_m p]. first_one (payoff_matrix_at lstsq p Z) ! j ! i
                                  * exp (- p_r p * real i * dt_of p)) [0..<p_n p]"
    unfolding total_at_def
    by (rule map_cong [OF refl]) (simp add: discounted_at_nth [OF assms])
  then show ?thesis by simp
qed

lemma reduce_mean_finite:
  assumes "v \<noteq> []"
  shows "reduce_mean v = Fin (sum_list v / real (length v))"
  using assms by (simp add: reduce_mean_def)

lemma length_total_at [simp]: "length (total_at lstsq p Z) = p_n p"
  by (simp add: total_at_def)

lemma price_closed:
  assumes "1 \<le> p_m p" and "1 \<le> p_n p"
  shows "reduce_mean (total_at lstsq p Z)
           = Fin ((\<Sum>j\<leftarrow>[0..<p_n p]. \<Sum>i\<leftarrow>[0..<p_m p].
                     first_one (payoff_matrix_at lstsq p Z) ! j ! i
                       * exp (- p_r p * real i * dt_of p)) / real (p_n p))"
proof -
  from assms(2) have "total_at lstsq p Z \<noteq> []"
    by (simp add: total_at_def)
  then show ?thesis
    by (simp add: reduce_mean_finite sum_list_total_at [OF assms(1)])
qed

lemma first_payoff_entry_nonneg:
  assumes "1 \<le> p_m p" and "j < p_n p" and "i < p_m p"
  shows "0 \<le> first_one (payoff_matrix_at lstsq p Z) ! j ! i"
proof -
  let ?fp = "first_one (payoff_matrix_at lstsq p Z)"
  have row: "?fp ! j \<in> set ?fp"
    using assms(2) by (simp add: first_payoff_shape(1) [OF assms(1)])
  then have "length (?fp ! j) = p_m p"
    by (rule first_payoff_shape(2) [OF assms(1)])
  with assms(3) have "?fp ! j ! i \<in> set (?fp ! j)" by simp
  with row show ?thesis
    using first_payoff_nonneg [OF assms(1)] by blast
qed

lemma sum_list_nonneg_upt:
  fixes f :: "nat \<Rightarrow> real"
  assumes "\<And>i. i < n \<Longrightarrow> 0 \<le> f i"
  shows "0 \<le> (\<Sum>i\<leftarrow>[0..<n]. f i)"
  using assms by (intro sum_list_nonneg) auto

text \<open>
  Claim C10. For all parameters with \<open>m \<ge> 1\<close>, \<open>n \<ge> 1\<close> and \<open>T > 0\<close> whose keys line up, every
  solver and every realisation \<open>Z\<close> of the normal draws, the run returns; every entry of
  every cashflow vector, of every value vector and of the extracted payoff matrix is
  nonnegative, and the price is a finite number \<open>\<ge> 0\<close>.
\<close>

theorem nonnegativity_invariant:
  assumes m: "1 \<le> p_m p" and n: "1 \<le> p_n p" and T: "0 < p_T p" and keys: "keys_aligned p"
  shows "\<exists>st price. lsmc lstsq p Z = Inr st
    \<and> (\<forall>c\<in>set (dict_values (st_cashflow st)). \<forall>x\<in>set c. 0 \<le> x)
    \<and> (\<forall>v\<in>set (dict_values (st_value st)). \<forall>x\<in>set v. 0 \<le> x)
    \<and> (\<forall>row\<in>set (st_first_payoff st). \<forall>x\<in>set row. 0 \<le> x)
    \<and> st_price st = Fin price \<and> 0 \<le> price"
proof -
  let ?m = "p_m p"
  let ?st = "run_state lstsq p Z"
  let ?price = "(\<Sum>j\<leftarrow>[0..<p_n p]. \<Sum>i\<leftarrow>[0..<p_m p].
                     first_one (payoff_matrix_at lstsq p Z) ! j ! i
                       * exp (- p_r p * real i * dt_of p)) / real (p_n p)"
  have run: "lsmc lstsq p Z = Inr ?st"
    using m keys by (rule lsmc_closed)
  have cash: "\<forall>c\<in>set (dict_values (st_cashflow ?st)). \<forall>x\<in>set c. 0 \<le> x"
    by (auto simp: run_state_def dict_values_def cashflow_at_nonneg simp del: upt_Suc)
  have val: "\<forall>v\<in>set (dict_values (st_value ?st)). \<forall>x\<in>set v. 0 \<le> x"
    by (auto simp: run_state_def dict_values_def value_at_nonneg simp del: upt_Suc)
  have pay: "\<forall>row\<in>set (st_first_payoff ?st). \<forall>x\<in>set row. 0 \<le> x"
    using first_payoff_nonneg [OF m] by (auto simp: run_state_def)
  have price: "st_price ?st = Fin ?price"
    using price_closed [OF m n] by (simp add: run_state_def)
  have "0 \<le> (\<Sum>j\<leftarrow>[0..<p_n p]. \<Sum>i\<leftarrow>[0..<p_m p].
                     first_one (payoff_matrix_at lstsq p Z) ! j ! i
                       * exp (- p_r p * real i * dt_of p))"
  proof (rule sum_list_nonneg_upt)
    fix j assume j: "j < p_n p"
    show "0 \<le> (\<Sum>i\<leftarrow>[0..<p_m p]. first_one (payoff_matrix_at lstsq p Z) ! j ! i
                                   * exp (- p_r p * real i * dt_of p))"
    proof (rule sum_list_nonneg_upt)
      fix i assume "i < p_m p"
      then show "0 \<le> first_one (payoff_matrix_at lstsq p Z) ! j ! i
                         * exp (- p_r p * real i * dt_of p)"
        using first_payoff_entry_nonneg [OF m j] by simp
    qed
  qed
  then have nonneg: "0 \<le> ?price" by simp
  show ?thesis
    by (intro exI [of _ ?st] exI [of _ ?price] conjI run cash val pay price nonneg)
qed

text \<open>
  The run that exercises at step 1 on path 0 and holds on path 1: its price is
  \<open>223.9375\<close>.
\<close>

theorem nonnegativity_invariant_witness:
  "\<exists>st price. lsmc two_path_solver exercise_parameters exercise_draws = Inr st
     \<and> st_price st = Fin price \<and> 0 \<le> price \<and> price = 3583 / 16
     \<and> dict_values (st_cashflow st) = [[8, 0], [0, 3519 / 8]]
     \<and> dict_values (st_value st) = [[0, 3519 / 8], [8, 3519 / 8]]
     \<and> st_first_payoff st = [[8, 0], [0, 3519 / 8]]"
proof -
  note k = two_step_keys [OF exercise_T exercise_m]
  have m: "1 \<le> p_m exercise_parameters" and n: "1 \<le> p_n exercise_parameters"
    and T: "0 < p_T exercise_parameters"
    by (simp_all add: exercise_parameters_def)
  from nonnegativity_invariant [OF m n T k(3), of two_path_solver exercise_draws]
  obtain st price where run: "lsmc two_path_solver exercise_parameters exercise_draws = Inr st"
    and price: "st_price st = Fin price" "0 \<le> price"
    by (elim exE conjE)
  from run have st: "st = \<lparr>st_S = [(0, [1024, 1024]), (1, [1024, 2048]), (2, [1040, 4737 / 8])],
          st_cashflow = [(1, [8, 0]), (2, [0, 3519 / 8])],
          st_value = [(2, [0, 3519 / 8]), (1, [8, 3519 / 8])],
          st_continuation_value = [(2, [Fin 0, Fin 0]), (1, [Fin 0, Fin (69 / 8)])],
          st_payoff = [[8, 0], [0, 3519 / 8]],
          st_first_payoff = [[8, 0], [0, 3519 / 8]],
          st_price = Fin (3583 / 16)\<rparr>"
    unfolding exercise_run by simp
  with price(1) have "price = 3583 / 16" by simp
  moreover from st have "dict_values (st_cashflow st) = [[8, 0], [0, 3519 / 8]]"
    and "dict_values (st_value st) = [[0, 3519 / 8], [8, 3519 / 8]]"
    and "st_first_payoff st = [[8, 0], [0, 3519 / 8]]"
    by (simp_all add: dict_values_def)
  ultimately show ?thesis
    using run price by (intro exI [of _ st] exI [of _ price]) simp
qed

subsection \<open>Discounting and price\<close>




subsection \<open>Parameter validation\<close>

lemma dict_get_raises: "dict_get d k = Inl e \<Longrightarrow> e = KeyError"
  by (simp add: dict_get_def split: option.splits)

lemma arange_raises: "arange start stop step = Inl e \<Longrightarrow> e = ZeroDivisionError"
  by (simp add: arange_def Let_def split: if_splits)

lemma simulate_raises: "simulate r sigma dt n Z i ts S = Inl e \<Longrightarrow> e = KeyError"
proof (induction ts arbitrary: i S)
  case Nil
  then show ?case by simp
next
  case (Cons t ts)
  then show ?case
    by (auto simp: Let_def dest: dict_get_raises split: sum.splits)
qed

lemma comprehension_loop_raises:
  "comprehension_loop f ts d = Inl e \<Longrightarrow> \<exists>t. f t = Inl e"
proof (induction ts arbitrary: d)
  case Nil
  then show ?case by simp
next
  case (Cons t ts)
  then show ?case
    by (auto split: sum.splits)
qed

lemma backward_loop_raises:
  "backward_loop lstsq order dt discount S cashflow ts state = Inl e \<Longrightarrow> e = KeyError"
proof (induction ts arbitrary: state)
  case Nil
  then show ?case by simp
next
  case (Cons t ts)
  obtain vd cd where state: "state = (vd, cd)" by (cases state)
  from Cons.prems show ?case
    unfolding state
    by (auto simp: Let_def chebyshev_basis_matrix dest: dict_get_raises Cons.IH split: sum.splits)
qed

lemma payoff_dict_raises: "payoff_dict n continuation_value cashflow t_span = Inl e \<Longrightarrow> e = KeyError"
  unfolding payoff_dict_def dict_comprehension_def
  by (auto simp: ebind_def dest!: comprehension_loop_raises dest: dict_get_raises split: sum.splits)

lemma column_raises: "column M i = Inl e \<Longrightarrow> e = ValueError"
  by (simp add: column_def split: if_splits)

lemma add_n_raises: "add_n vs = Inl e \<Longrightarrow> e = ValueError"
  by (cases vs) simp_all

lemma ebind_raises [consumes 1]:
  assumes "ebind x f = Inl e"
    and "x = Inl e \<Longrightarrow> P"
    and "\<And>v. x = Inr v \<Longrightarrow> f v = Inl e \<Longrightarrow> P"
  shows P
  using assms by (cases x) (simp_all add: ebind_def)

lemma lsmc_raises:
  assumes "lsmc lstsq p Z = Inl e"
  shows "e = ZeroDivisionError \<or> e = KeyError \<or> e = ValueError"
proof -
  note run = assms [unfolded lsmc_def Let_def]
  from run show ?thesis
  proof (cases rule: ebind_raises)
    case 1
    then show ?thesis by (simp split: if_splits)
  next
    case (2 dt)
    from 2(2) show ?thesis
    proof (cases rule: ebind_raises)
      case 1
      then show ?thesis by (simp add: arange_raises)
    next
      case (2 times)
      from 2(2) show ?thesis
      proof (cases rule: ebind_raises)
        case 1
        then show ?thesis by (simp add: simulate_raises)
      next
        case (2 S)
        from 2(2) show ?thesis
        proof (cases rule: ebind_raises)
          case 1
          then have "e = KeyError"
            unfolding dict_comprehension_def
            by (auto simp: ebind_def dest!: comprehension_loop_raises dest: dict_get_raises
                     split: sum.splits)
          then show ?thesis by simp
        next
          case (2 cashflow)
          from 2(2) show ?thesis
          proof (cases rule: ebind_raises)
            case 1
            then show ?thesis by (simp add: dict_get_raises)
          next
            case (2 cashflow_T)
            from 2(2) show ?thesis
            proof (cases rule: ebind_raises)
              case 1
              then show ?thesis by (simp add: backward_loop_raises)
            next
              case (2 state)
              obtain vd cd where state: "state = (vd, cd)" by (cases state)
              from 2(2) [unfolded state prod.case] show ?thesis
              proof (cases rule: ebind_raises)
                case 1
                then show ?thesis by (simp add: payoff_dict_raises)
              next
                case (2 payoff)
                from 2(2) show ?thesis
                proof (cases rule: ebind_raises)
                  case 1
                  then have "e = ValueError"
                    unfolding dict_comprehension_def
                    by (auto simp: ebind_def dest!: comprehension_loop_raises dest: column_raises
                             split: sum.splits)
                  then show ?thesis by simp
                next
                  case (2 discounted_payoff)
                  from 2(2) show ?thesis
                  proof (cases rule: ebind_raises)
                    case 1
                    then show ?thesis by (simp add: add_n_raises)
                  next
                    case (2 total)
                    then show ?thesis by simp
                  qed
                qed
              qed
            qed
          qed
        qed
      qed
    qed
  qed
qed

text \<open>
  Claim C8, as amended. No statement of the notebook validates a parameter: whatever the
  parameters, the solver and the draws are, the run does not fail with InvalidParameter.
  With \<open>m = 0\<close> the run fails with Python's ZeroDivisionError at \<open>\<Delta>t = T / m\<close>, before any
  simulation step.
\<close>

theorem no_parameter_validation:
  "lsmc lstsq p Z \<noteq> Inl InvalidParameter
   \<and> (p_m p = 0 \<longrightarrow> lsmc lstsq p Z = Inl ZeroDivisionError)"
proof
  show "lsmc lstsq p Z \<noteq> Inl InvalidParameter"
  proof
    assume "lsmc lstsq p Z = Inl InvalidParameter"
    then have "InvalidParameter = ZeroDivisionError \<or> InvalidParameter = KeyError
                 \<or> InvalidParameter = ValueError"
      by (rule lsmc_raises)
    then show False by simp
  qed
  show "p_m p = 0 \<longrightarrow> lsmc lstsq p Z = Inl ZeroDivisionError"
    by (simp add: lsmc_def Let_def ebind_def)
qed

text \<open>
  The notebook's parameters with volatility \<open>-0.2\<close>, one path and the step count set to 0.
\<close>

theorem no_parameter_validation_witness:
  "lsmc two_path_solver (negative_volatility_parameters\<lparr>p_m := 0\<rparr>) unit_draws
     = Inl ZeroDivisionError"
proof -
  have "p_m (negative_volatility_parameters\<lparr>p_m := 0\<rparr>) = 0" by simp
  with no_parameter_validation
         [of two_path_solver "negative_volatility_parameters\<lparr>p_m := 0\<rparr>" unit_draws]
  show ?thesis by blast
qed

text \<open>
  Claim C8 as stated fails for the negative volatility \<open>\<sigma> = -0.2\<close>: the run takes its
  simulation step (\<open>S[1] = 774/25\<close>) and produces the price \<open>226/25\<close>.
\<close>

theorem negative_volatility_counterexample:
  "lsmc two_path_solver negative_volatility_parameters unit_draws =
     Inr \<lparr>st_S = [(0, [36]), (1, [774 / 25])],
          st_cashflow = [(1, [226 / 25])],
          st_value = [(1, [226 / 25 * exp (- (3 / 50))])],
          st_continuation_value = [(1, [Fin 0])],
          st_payoff = [[226 / 25]],
          st_first_payoff = [[226 / 25]],
          st_price = Fin (226 / 25)\<rparr>"
  using negative_volatility_run by simp

end
